(* ===== verification/Net_Prelude.thy ===== *)
theory Net_Prelude
  imports "HOL-Library.Word"
begin

unbundle bit_operations_syntax

text \<open>
  The vocabulary every component shares: bytes and machine integers, the ways a C function can
  stop without returning, pointers as bounds-checked views of memory, the error and the state
  monads the components are written in, and the conversions of \<^verbatim>\<open>printf\<close> that
  the sources use.
\<close>

section \<open>Machine integers and stops\<close>

type_synonym byte = "8 word"
type_synonym u16 = "16 word"
type_synonym u32 = "32 word"
type_synonym u64 = "64 word"

text \<open>
  A run of a C function returns a value or stops. It stops at the first operation whose
  behaviour the C standard leaves undefined (a read or write outside an object, the use of an
  uninitialised variable, a null pointer, a signed overflow, an array of length zero; a write outside
  an object is told from a read).
\<close>

datatype fault =
    OutOfBounds
  | BadWrite
  | Uninit
  | NullPtr
  | BadArraySize
  | SignedOverflow

lemma unat_inj_iff: "unat a = unat b \<longleftrightarrow> a = b"
  by (auto intro: unsigned_word_eqI)

lemma map_Some_the: "None \<notin> set xs \<Longrightarrow> map Some (map the xs) = xs"
  by (induction xs) auto

section \<open>Results\<close>

fun rbind :: "fault + 'a \<Rightarrow> ('a \<Rightarrow> fault + 'b) \<Rightarrow> fault + 'b" where
  "rbind (Inl e) f = Inl e"
| "rbind (Inr a) f = f a"

named_theorems run_simps "evaluation of results, programs and reads"

lemma rbind_Inr_iff: "rbind m f = Inr b \<longleftrightarrow> (\<exists>a. m = Inr a \<and> f a = Inr b)"
  by (cases m) auto

lemma rbind_Inl_iff: "rbind m f = Inl e \<longleftrightarrow> m = Inl e \<or> (\<exists>a. m = Inr a \<and> f a = Inl e)"
  by (cases m) auto

lemma rbind_cong [fundef_cong]:
  "m = m' \<Longrightarrow> (\<And>a. m' = Inr a \<Longrightarrow> f a = f' a) \<Longrightarrow> rbind m f = rbind m' f'"
  by (cases m') auto

text \<open>A signed \<^verbatim>\<open>int\<close> is an integer between these bounds, and a difference that leaves them is a fault.\<close>

definition INT_MAX :: int where "INT_MAX = 2147483647"
definition INT_MIN :: int where "INT_MIN = -2147483648"

definition int_sub :: "int \<Rightarrow> int \<Rightarrow> fault + int" where
  "int_sub a b = (if INT_MIN \<le> a - b \<and> a - b \<le> INT_MAX then Inr (a - b) else Inl SignedOverflow)"

section \<open>Pointers\<close>

text \<open>
  A pointer into a constant object is the list of the bytes from where it points to the end of
  the object: \<open>rd p i\<close> is \<^verbatim>\<open>p[i]\<close>, an out-of-bounds read past the end, and \<open>padd p k\<close> is
  \<^verbatim>\<open>p + k\<close>. The sources only ever move such a pointer forwards.
\<close>

type_synonym cptr = "byte list"

definition rd :: "cptr \<Rightarrow> nat \<Rightarrow> fault + byte" where
  "rd p i = (if i < length p then Inr (p ! i) else Inl OutOfBounds)"

definition padd :: "cptr \<Rightarrow> nat \<Rightarrow> cptr" where
  "padd p k = drop k p"

text \<open>\<^verbatim>\<open>memcpy(dst, p, n)\<close>: the \<open>n\<close> bytes read from \<open>p\<close>.\<close>

fun readn :: "cptr \<Rightarrow> nat \<Rightarrow> fault + byte list" where
  "readn p 0 = Inr []"
| "readn p (Suc n) = rbind (rd p 0) (\<lambda>b. rbind (readn (padd p 1) n) (\<lambda>bs. Inr (b # bs)))"

lemma rd_in [simp]: "i < length p \<Longrightarrow> rd p i = Inr (p ! i)"
  by (simp add: rd_def)

lemma rd_out [simp]: "length p \<le> i \<Longrightarrow> rd p i = Inl OutOfBounds"
  by (simp add: rd_def)

lemma rd_Inr_iff: "rd p i = Inr b \<longleftrightarrow> i < length p \<and> b = p ! i"
  by (auto simp: rd_def)

lemma padd_0 [simp]: "padd p 0 = p"
  by (simp add: padd_def)

lemma padd_padd [simp]: "padd (padd p j) k = padd p (j + k)"
  by (simp add: padd_def add.commute)

lemma length_padd [simp]: "length (padd p k) = length p - k"
  by (simp add: padd_def)

lemma nth_padd [simp]: "k + i < length p \<Longrightarrow> padd p k ! i = p ! (k + i)"
  by (simp add: padd_def)

lemma le_length_padd [run_simps]: "0 < c \<Longrightarrow> c \<le> n - k \<longleftrightarrow> k + c \<le> (n :: nat)"
  by linarith

lemma rd_padd [run_simps]: "rd (padd p k) i = rd p (k + i)"
  by (auto simp: padd_def rd_def)

lemma padd_append [simp]: "padd (xs @ p) (length xs) = p"
  by (simp add: padd_def)

lemma readn_eq [run_simps]: "readn p n = (if n \<le> length p then Inr (take n p) else Inl OutOfBounds)"
proof (induction n arbitrary: p)
  case 0
  then show ?case by simp
next
  case (Suc n)
  then show ?case by (cases p) (auto simp: padd_def)
qed

section \<open>Programs\<close>

text \<open>
  A stateful C function maps a state to a stop or to its value and the new state.
\<close>

type_synonym ('s, 'a) prog = "'s \<Rightarrow> fault + 'a \<times> 's"

definition ret :: "'a \<Rightarrow> ('s, 'a) prog" where
  "ret a s = Inr (a, s)"

definition pbind :: "('s, 'a) prog \<Rightarrow> ('a \<Rightarrow> ('s, 'b) prog) \<Rightarrow> ('s, 'b) prog" where
  "pbind m f s = (case m s of Inl e \<Rightarrow> Inl e | Inr (a, s') \<Rightarrow> f a s')"

definition lift :: "fault + 'a \<Rightarrow> ('s, 'a) prog" where
  "lift r s = (case r of Inl e \<Rightarrow> Inl e | Inr a \<Rightarrow> Inr (a, s))"

definition stop :: "fault \<Rightarrow> ('s, 'a) prog" where
  "stop e s = Inl e"

definition gets :: "('s \<Rightarrow> 'a) \<Rightarrow> ('s, 'a) prog" where
  "gets f s = Inr (f s, s)"

definition modify :: "('s \<Rightarrow> 's) \<Rightarrow> ('s, unit) prog" where
  "modify f s = Inr ((), f s)"

lemma pbind_ret [simp]: "pbind (ret a) f = f a"
  by (rule ext) (simp add: pbind_def ret_def)

lemma pbind_stop [simp]: "pbind (stop e) f = stop e"
  by (rule ext) (simp add: pbind_def stop_def)

lemma lift_Inr [simp]: "lift (Inr a) = ret a"
  by (rule ext) (simp add: lift_def ret_def)

lemma lift_Inl [simp]: "lift (Inl e) = stop e"
  by (rule ext) (simp add: lift_def stop_def)

lemma pbind_assoc: "pbind (pbind m f) g = pbind m (\<lambda>a. pbind (f a) g)"
  by (rule ext) (simp add: pbind_def split: sum.splits prod.splits)

lemma pbind_step [run_simps]: "m s = Inr (a, s') \<Longrightarrow> pbind m f s = f a s'"
  by (simp add: pbind_def)

lemma pbind_fault [run_simps]: "m s = Inl e \<Longrightarrow> pbind m f s = Inl e"
  by (simp add: pbind_def)

lemma pbind_Inr_iff:
  "pbind m f s = Inr (b, s'') \<longleftrightarrow> (\<exists>a s'. m s = Inr (a, s') \<and> f a s' = Inr (b, s''))"
  by (auto simp: pbind_def split: sum.splits)

lemma lift_run_Inr_iff: "lift r s = Inr (a, s') \<longleftrightarrow> r = Inr a \<and> s' = s"
  by (auto simp: lift_def split: sum.split)

lemma ret_run [simp]: "ret a s = Inr (a, s)"
  by (simp add: ret_def)

lemma stop_run [simp]: "stop e s = Inl e"
  by (simp add: stop_def)

lemma pbind_gets [simp]: "pbind (gets g) f s = f (g s) s"
  by (simp add: pbind_def gets_def)

lemma pbind_modify [simp]: "pbind (modify g) f s = f () (g s)"
  by (simp add: pbind_def modify_def)

text \<open>A loop over a list of items, in order.\<close>

fun for_each :: "'b list \<Rightarrow> ('b \<Rightarrow> ('s, unit) prog) \<Rightarrow> ('s, unit) prog" where
  "for_each [] f = ret ()"
| "for_each (x # xs) f = pbind (f x) (\<lambda>_. for_each xs f)"

lemma for_each_append: "for_each (xs @ ys) f = pbind (for_each xs f) (\<lambda>_. for_each ys f)"
  by (induction xs) (simp_all only: append_Nil append_Cons for_each.simps pbind_ret pbind_assoc)

lemma for_each_faults:
  "x \<in> set xs \<Longrightarrow> (\<And>s. \<exists>e. f x s = Inl e) \<Longrightarrow> \<exists>e. for_each xs f s = Inl e"
proof (induction xs arbitrary: s)
  case Nil
  then show ?case by simp
next
  case (Cons y ys)
  show ?case
  proof (cases "f y s")
    case (Inl e)
    then show ?thesis by (simp add: pbind_fault)
  next
    case (Inr r)
    obtain u s' where r: "f y s = Inr (u, s')" using Inr by (cases r) auto
    then have "x \<noteq> y" using Cons.prems(2) [of s] by auto
    then have "x \<in> set ys" using Cons.prems(1) by simp
    from Cons.IH [OF this Cons.prems(2)] show ?thesis using r by (simp add: pbind_def)
  qed
qed

text \<open>A loop over a list of items that carries a value.\<close>

fun pfold :: "('b \<Rightarrow> 'i \<Rightarrow> ('s, 'b) prog) \<Rightarrow> 'i list \<Rightarrow> 'b \<Rightarrow> ('s, 'b) prog" where
  "pfold f [] b = ret b"
| "pfold f (x # xs) b = pbind (f b x) (pfold f xs)"

text \<open>
  A function ends the process with \<^verbatim>\<open>exit\<close> or \<^verbatim>\<open>errx\<close>, gives a value, or is still running when the
  script of its environment is over. The state at that point stays visible.
\<close>

datatype 'a status = Exits nat | Value 'a | Running

definition xbind :: "('s, 'a status) prog \<Rightarrow> ('a \<Rightarrow> ('s, 'b status) prog) \<Rightarrow> ('s, 'b status) prog" where
  "xbind m f = pbind m (\<lambda>r. case r of Exits n \<Rightarrow> ret (Exits n) | Value a \<Rightarrow> f a | Running \<Rightarrow> ret Running)"

definition die :: "nat \<Rightarrow> ('s, 'a status) prog" where
  "die code = ret (Exits code)"

lemma xbind_run [run_simps]:
  "m w = Inr (Value a, w') \<Longrightarrow> xbind m f w = f a w'" "m w = Inr (Exits n, w') \<Longrightarrow> xbind m f w = Inr (Exits n, w')"
  "m w = Inr (Running, w') \<Longrightarrow> xbind m f w = Inr (Running, w')" "m w = Inl e \<Longrightarrow> xbind m f w = Inl e"
  by (simp_all add: xbind_def pbind_step pbind_fault)

lemma xbind_ret [simp]:
  "xbind (ret (Value a)) f = f a" "xbind (ret (Exits n)) f = ret (Exits n)" "xbind (ret Running) f = ret Running"
  by (simp_all add: xbind_def fun_eq_iff)

section \<open>The process: standard output and the allocator\<close>

text \<open>
  \<open>alloc_ok\<close> says, for each call of \<^verbatim>\<open>malloc\<close> or \<^verbatim>\<open>realloc\<close> in the order they are made,
  whether it returns memory; \<open>n_alloc\<close> counts the calls and \<open>live\<close> the blocks that are
  allocated and not freed.
\<close>

record world =
  out :: string
  alloc_ok :: "nat \<Rightarrow> bool"
  n_alloc :: nat
  live :: nat

lemma out_same [simp]: "w\<lparr>out := out w\<rparr> = w"
  by (cases w) simp

definition puts :: "string \<Rightarrow> ('w world_scheme, unit) prog" where
  "puts s = modify (\<lambda>w. w\<lparr>out := out w @ s\<rparr>)"

text \<open>
  \<open>malloc_unchecked\<close> is a \<^verbatim>\<open>malloc\<close> whose result the code dereferences without a test: a new
  block when there is memory, and the use of a null pointer otherwise.
\<close>

definition malloc_unchecked :: "('w world_scheme, unit) prog" where
  "malloc_unchecked w =
     (if alloc_ok w (n_alloc w)
      then Inr ((), w\<lparr>n_alloc := n_alloc w + 1, live := live w + 1\<rparr>)
      else Inl NullPtr)"

text \<open>What \<open>k\<close> successful allocations and the output \<open>s\<close> do to a process.\<close>

definition grown :: "nat \<Rightarrow> string \<Rightarrow> 'w world_scheme \<Rightarrow> 'w world_scheme" where
  "grown k s w = w\<lparr>out := out w @ s, n_alloc := n_alloc w + k, live := live w + k\<rparr>"

definition allocs_ok :: "nat \<Rightarrow> 'w world_scheme \<Rightarrow> bool" where
  "allocs_ok k w \<longleftrightarrow> (\<forall>i < k. alloc_ok w (n_alloc w + i))"

lemma grown_grown [simp]: "grown k t (grown j s w) = grown (j + k) (s @ t) w"
  by (simp add: grown_def)

lemma grown_0 [simp]: "grown 0 [] w = w"
  by (simp add: grown_def)

lemma puts_run [simp]: "puts s w = Inr ((), grown 0 s w)"
  by (simp add: grown_def puts_def modify_def)

lemma pbind_puts [simp]: "pbind (puts s) f w = f () (grown 0 s w)"
  by (simp add: pbind_def)

lemma allocs_ok_grown [simp]: "allocs_ok k (grown j s w) \<longleftrightarrow> (\<forall>i < k. alloc_ok w (n_alloc w + (j + i)))"
  by (simp add: allocs_ok_def grown_def add.assoc)

lemma allocs_ok_D: "allocs_ok n w \<Longrightarrow> j + k \<le> n \<Longrightarrow> allocs_ok k (grown j s w)"
  by (simp add: allocs_ok_def grown_def add.assoc)

lemma allocs_ok_mono: "allocs_ok n w \<Longrightarrow> k \<le> n \<Longrightarrow> allocs_ok k w"
  by (simp add: allocs_ok_def)

lemma malloc_unchecked_run: "allocs_ok 1 w \<Longrightarrow> malloc_unchecked w = Inr ((), grown 1 [] w)"
  by (simp add: malloc_unchecked_def allocs_ok_def grown_def)

lemma out_grown [simp]: "out (grown k s w) = out w @ s"
  by (simp add: grown_def)

lemma live_grown [simp]: "live (grown k s w) = live w + k"
  by (simp add: grown_def)

text \<open>
  The effect of a function on the process when the number of allocations does not matter: it
  printed \<open>s\<close> and left \<open>k\<close> more live blocks. \<open>ample\<close> says that memory does not run out.
\<close>

definition effect :: "nat \<Rightarrow> string \<Rightarrow> 'w world_scheme \<Rightarrow> 'w world_scheme \<Rightarrow> bool" where
  "effect k s w w' \<longleftrightarrow> (\<exists>m. w' = w\<lparr>out := out w @ s, n_alloc := m, live := live w + k\<rparr>)"

definition ample :: "'w world_scheme \<Rightarrow> bool" where
  "ample w \<longleftrightarrow> (\<forall>i. alloc_ok w i)"

text \<open>A process that has printed nothing and never runs out of memory, for the examples.\<close>

definition start_world :: world where
  "start_world = \<lparr>out = [], alloc_ok = (\<lambda>_. True), n_alloc = 0, live = 0\<rparr>"

lemma ample_start_world [simp]: "ample start_world"
  by (simp add: ample_def start_world_def)

lemma effect_refl [simp]: "effect 0 [] w w"
  by (auto simp: effect_def intro: exI [of _ "n_alloc w"])

lemma effect_grown [simp]: "effect k s w (grown k s w)"
  by (auto simp: effect_def grown_def)

lemma effect_trans: "effect j s w w' \<Longrightarrow> effect k t w' w'' \<Longrightarrow> effect (j + k) (s @ t) w w''"
  by (auto simp: effect_def add.assoc)

lemma effect_out: "effect k s w w' \<Longrightarrow> out w' = out w @ s"
  by (auto simp: effect_def)

lemma effect_live: "effect k s w w' \<Longrightarrow> live w' = live w + k"
  by (auto simp: effect_def)

lemma effect_ample: "effect k s w w' \<Longrightarrow> ample w' = ample w"
  by (auto simp: effect_def ample_def)

lemma ample_grown [simp]: "ample (grown k s w) = ample w"
  by (simp add: ample_def grown_def)

lemma ample_allocs_ok: "ample w \<Longrightarrow> allocs_ok k w"
  by (simp add: ample_def allocs_ok_def)

text \<open>The loop \<^verbatim>\<open>for (i = 0; i < n; i++)\<close> that prints something of each byte \<^verbatim>\<open>p[i]\<close>.\<close>

definition print_byte :: "(nat \<Rightarrow> byte \<Rightarrow> string) \<Rightarrow> cptr \<Rightarrow> nat \<Rightarrow> ('w world_scheme, unit) prog" where
  "print_byte f p i = pbind (lift (rd p i)) (\<lambda>b. puts (f i b))"

lemma print_byte_run [run_simps]:
  "print_byte f p i w =
     (if i < length p then Inr ((), grown 0 (f i (p ! i)) w) else Inl OutOfBounds)"
  by (simp add: print_byte_def pbind_def lift_def)

lemma for_each_print_byte:
  "i \<le> length p \<Longrightarrow> for_each [i..<i + n] (print_byte f p) w =
     (if i + n \<le> length p
      then Inr ((), grown 0 (concat (map (\<lambda>j. f j (p ! j)) [i..<i + n])) w)
      else Inl OutOfBounds)"
proof (induction n arbitrary: i w)
  case 0
  then show ?case by (simp add: grown_0)
next
  case (Suc n)
  have upt: "[i..<i + Suc n] = i # [Suc i..<Suc i + n]"
    by (simp add: upt_conv_Cons)
  show ?case
  proof (cases "i < length p")
    case True
    then have "Suc i \<le> length p" by simp
    note IH = Suc.IH [OF this, of "grown 0 (f i (p ! i)) w"]
    have "for_each [i..<i + Suc n] (print_byte f p) w
        = for_each [Suc i..<Suc i + n] (print_byte f p) (grown 0 (f i (p ! i)) w)"
      unfolding upt for_each.simps by (simp add: pbind_def print_byte_run True del: upt_Suc)
    then show ?thesis unfolding IH unfolding upt by simp
  next
    case False
    with Suc.prems show ?thesis
      unfolding upt for_each.simps by (simp add: pbind_def print_byte_run)
  qed
qed

lemma for_each_print_bytes [run_simps]:
  "for_each [0..<n] (print_byte f p) w =
     (if n \<le> length p then Inr ((), grown 0 (concat (map (\<lambda>j. f j (p ! j)) [0..<n])) w)
      else Inl OutOfBounds)"
  using for_each_print_byte [of 0 p n f w] by simp

section \<open>Conversions of printf\<close>

definition nl :: string where
  "nl = [CHR 0x0A]"

definition digit :: "nat \<Rightarrow> char" where
  "digit d = char_of (48 + d)"

definition xdigit :: "nat \<Rightarrow> char" where
  "xdigit d = (if d < 10 then char_of (48 + d) else char_of (87 + d))"

definition Xdigit :: "nat \<Rightarrow> char" where
  "Xdigit d = (if d < 10 then char_of (48 + d) else char_of (55 + d))"

text \<open>\<^verbatim>\<open>%u\<close>, \<^verbatim>\<open>%d\<close> and \<^verbatim>\<open>%x\<close>.\<close>

fun show_dec :: "nat \<Rightarrow> string" where
  "show_dec n = (if n < 10 then [digit n] else show_dec (n div 10) @ [digit (n mod 10)])"

fun show_hex :: "nat \<Rightarrow> string" where
  "show_hex n = (if n < 16 then [xdigit n] else show_hex (n div 16) @ [xdigit (n mod 16)])"

declare show_dec.simps [simp del] show_hex.simps [simp del]

definition show_int :: "int \<Rightarrow> string" where
  "show_int i = (if i < 0 then CHR ''-'' # show_dec (nat (- i)) else show_dec (nat i))"

text \<open>\<^verbatim>\<open>%02X\<close> and \<^verbatim>\<open>%.2x\<close> of a byte: two hexadecimal digits.\<close>

definition show_02X :: "byte \<Rightarrow> string" where
  "show_02X b = [Xdigit (unat b div 16), Xdigit (unat b mod 16)]"

definition show_02x :: "byte \<Rightarrow> string" where
  "show_02x b = [xdigit (unat b div 16), xdigit (unat b mod 16)]"

text \<open>\<^verbatim>\<open>%c\<close> of a byte, and the field widths \<^verbatim>\<open>%20s\<close> (right-justified) and \<^verbatim>\<open>%-20s\<close>.\<close>

definition show_c :: "byte \<Rightarrow> char" where
  "show_c b = char_of (unat b)"

definition rjust :: "nat \<Rightarrow> string \<Rightarrow> string" where
  "rjust k s = replicate (k - length s) CHR '' '' @ s"

definition ljust :: "nat \<Rightarrow> string \<Rightarrow> string" where
  "ljust k s = s @ replicate (k - length s) CHR '' ''"

end
