(* ===== verification/Bit_Layout.thy ===== *)
theory Bit_Layout
  imports Net_Prelude
begin

text \<open>
  The reference the header decoders are compared with. A protocol header is specified by its
  layout, the list of the widths of its fields in bits, most significant bit first, as the RFCs
  draw it. \<open>split_fields\<close> reads the values of the fields off a bit string and
  \<open>join_fields\<close> writes them; \<open>bits_of\<close> and \<open>pack\<close> go between bytes and bits. The locale
  \<open>header_decoder\<close> is the contract every header extractor of the sniffer meets.
\<close>

section \<open>Bits of bytes and numbers\<close>

definition byte_bits :: "byte \<Rightarrow> bool list" where
  "byte_bits b = [bit b 7, bit b 6, bit b 5, bit b 4, bit b 3, bit b 2, bit b 1, bit b 0]"

definition bits_of :: "byte list \<Rightarrow> bool list" where
  "bits_of bs = concat (map byte_bits bs)"

definition bits_val :: "bool list \<Rightarrow> nat" where
  "bits_val bs = horner_sum of_bool 2 (rev bs)"

definition nat_bits :: "nat \<Rightarrow> nat \<Rightarrow> bool list" where
  "nat_bits w n = map (bit n) (rev [0..<w])"

fun pack :: "bool list \<Rightarrow> byte list" where
  "pack (a # b # c # d # e # f # g # h # bs) = of_nat (bits_val [a, b, c, d, e, f, g, h]) # pack bs"
| "pack _ = []"

named_theorems bit_eval "evaluation of bits of words at numeral positions"

lemma upt_numeral [bit_eval]:
  "[0..<8] = [0, 1, 2, 3, 4, 5, 6, 7]"
  "[0..<16] = [0, 1, 2, 3, 4, 5, 6, 7, 8, 9, 10, 11, 12, 13, 14, 15]"
  "[0..<32] = [0, 1, 2, 3, 4, 5, 6, 7, 8, 9, 10, 11, 12, 13, 14, 15,
     16, 17, 18, 19, 20, 21, 22, 23, 24, 25, 26, 27, 28, 29, 30, 31]"
  by (simp_all add: upt_rec eval_nat_numeral)

lemma not_bit_byte [bit_eval]: "8 \<le> n \<Longrightarrow> \<not> bit (b :: byte) n"
  using bit_imp_le_length by force

lemma bits_val_append: "bits_val (xs @ ys) = bits_val xs * 2 ^ length ys + bits_val ys"
  by (simp add: bits_val_def horner_sum_append)

lemma bits_val_False [simp]: "bits_val (False # xs) = bits_val xs"
  by (simp add: bits_val_def horner_sum_append)

lemma bits_val_Nil [simp]: "bits_val [] = 0"
  by (simp add: bits_val_def)

lemma bits_val_single [simp]: "bits_val [x] = of_bool x"
  by (simp add: bits_val_def)

lemma bits_val_less: "bits_val bs < 2 ^ length bs"
proof (induction bs rule: rev_induct)
  case Nil
  then show ?case by simp
next
  case (snoc x xs)
  then show ?case by (cases x) (simp_all add: bits_val_append)
qed

lemma unat_word_bits: "unat (w :: 'a :: len word) = bits_val (map (bit w) (rev [0..<LENGTH('a)]))"
proof -
  have "horner_sum of_bool 2 (map (bit (unat w)) [0..<LENGTH('a)]) = unat w"
    by (simp add: horner_sum_bit_eq_take_bit take_bit_nat_eq_self unsigned_less)
  moreover have "map (bit (unat w)) [0..<LENGTH('a)] = map (bit w) [0..<LENGTH('a)]"
    by (simp add: bit_unsigned_iff)
  ultimately show ?thesis
    by (simp add: bits_val_def rev_map)
qed

lemma length_byte_bits [simp]: "length (byte_bits b) = 8"
  by (simp add: byte_bits_def)

lemma unat_byte_bits: "unat (b :: byte) = bits_val (byte_bits b)"
  by (simp add: unat_word_bits byte_bits_def bit_eval)

lemma length_bits_of [simp]: "length (bits_of bs) = 8 * length bs"
  by (induction bs) (simp_all add: bits_of_def)

lemma bits_of_simps [simp]:
  "bits_of [] = []" "bits_of (b # bs) = byte_bits b @ bits_of bs"
  by (simp_all add: bits_of_def)

lemma length_nat_bits [simp]: "length (nat_bits w n) = w"
  by (simp add: nat_bits_def)

lemma bits_val_nat_bits: "bits_val (nat_bits w n) = n mod 2 ^ w"
  by (simp add: bits_val_def nat_bits_def rev_map horner_sum_bit_eq_take_bit take_bit_eq_mod)

lemma nat_bits_bits_val: "nat_bits (length bs) (bits_val bs) = bs"
proof (induction bs)
  case Nil
  then show ?case by (simp add: nat_bits_def)
next
  case (Cons x xs)
  have val: "bits_val (x # xs) = of_bool x * 2 ^ length xs + bits_val xs"
    using bits_val_append [of "[x]" xs] by simp
  have "bits_val (x # xs) div 2 ^ length xs = of_bool x"
    by (simp only: val) (simp add: bits_val_less)
  then have high: "bit (bits_val (x # xs)) (length xs) = x"
    by (simp add: bit_iff_odd)
  have low: "bit (bits_val (x # xs)) i = bit (bits_val xs) i" if "i < length xs" for i
  proof -
    have "take_bit (length xs) (bits_val (x # xs)) = take_bit (length xs) (bits_val xs)"
      by (simp add: val take_bit_eq_mod)
    then have "bit (take_bit (length xs) (bits_val (x # xs))) i
        = bit (take_bit (length xs) (bits_val xs)) i"
      by simp
    with that show ?thesis by (simp add: bit_take_bit_iff)
  qed
  have "nat_bits (length xs) (bits_val (x # xs)) = nat_bits (length xs) (bits_val xs)"
    unfolding nat_bits_def by (rule map_cong) (simp_all add: low)
  moreover have "nat_bits (Suc n) v = bit v n # nat_bits n v" for n v
    by (simp add: nat_bits_def)
  ultimately show ?case using Cons.IH high by simp
qed

lemma byte_bits_of_nat: "length bs = 8 \<Longrightarrow> byte_bits (of_nat (bits_val bs)) = bs"
proof -
  assume len: "length bs = 8"
  have "byte_bits (of_nat (bits_val bs)) = nat_bits 8 (bits_val bs)"
    by (simp add: byte_bits_def nat_bits_def bit_eval bit_of_nat_iff)
  with len show ?thesis using nat_bits_bits_val [of bs] by simp
qed

lemma bits_of_pack: "8 dvd length bs \<Longrightarrow> bits_of (pack bs) = bs"
proof (induction bs rule: pack.induct)
  case (1 a b c d e f g h bs)
  have "length (a # b # c # d # e # f # g # h # bs) = length bs + 8" by simp
  then have "8 dvd length bs" using "1.prems" by (metis dvd_add_left_iff dvd_refl)
  with 1 show ?case by (simp add: byte_bits_of_nat)
qed (simp_all, (presburger+)?)

lemma pack_append: "length bs = 8 \<Longrightarrow> pack (bs @ cs) = of_nat (bits_val bs) # pack cs"
  by (auto simp: length_Suc_conv numeral_eq_Suc)

lemma pack_bits_of [simp]: "pack (bits_of bs) = bs"
proof (induction bs)
  case Nil
  then show ?case by simp
next
  case (Cons b bs)
  then show ?case by (simp add: pack_append unat_byte_bits [symmetric])
qed

lemma length_pack: "8 dvd length bs \<Longrightarrow> length (pack bs) = length bs div 8"
  using length_bits_of [of "pack bs"] by (simp add: bits_of_pack)

section \<open>Fields of a layout\<close>

fun split_fields :: "nat list \<Rightarrow> bool list \<Rightarrow> nat list" where
  "split_fields [] bs = []"
| "split_fields (w # ws) bs = bits_val (take w bs) # split_fields ws (drop w bs)"

fun join_fields :: "nat list \<Rightarrow> nat list \<Rightarrow> bool list" where
  "join_fields (w # ws) (v # vs) = nat_bits w v @ join_fields ws vs"
| "join_fields _ _ = []"

fun fits :: "nat list \<Rightarrow> nat list \<Rightarrow> bool" where
  "fits [] [] = True"
| "fits (w # ws) (v # vs) = (v < 2 ^ w \<and> fits ws vs)"
| "fits _ _ = False"

definition encode_fields :: "nat list \<Rightarrow> nat list \<Rightarrow> byte list" where
  "encode_fields ws vs = pack (join_fields ws vs)"

definition decode_fields :: "nat list \<Rightarrow> byte list \<Rightarrow> nat list" where
  "decode_fields ws bs = split_fields ws (bits_of bs)"

lemma length_join_fields: "fits ws vs \<Longrightarrow> length (join_fields ws vs) = sum_list ws"
  by (induction ws vs rule: fits.induct) simp_all

lemma split_join_fields: "fits ws vs \<Longrightarrow> split_fields ws (join_fields ws vs @ bs) = vs"
  by (induction ws vs rule: fits.induct) (simp_all add: bits_val_nat_bits)

lemma join_split_fields: "length bs = sum_list ws \<Longrightarrow> join_fields ws (split_fields ws bs) = bs"
proof (induction ws arbitrary: bs)
  case Nil
  then show ?case by simp
next
  case (Cons w ws)
  then have "length (take w bs) = w" and "length (drop w bs) = sum_list ws" by simp_all
  with Cons.IH [of "drop w bs"] nat_bits_bits_val [of "take w bs"] show ?case by simp
qed

lemma fits_split_fields: "sum_list ws \<le> length bs \<Longrightarrow> fits ws (split_fields ws bs)"
proof (induction ws arbitrary: bs)
  case Nil
  then show ?case by simp
next
  case (Cons w ws)
  then show ?case using bits_val_less [of "take w bs"] by simp
qed

lemma length_encode_fields:
  "fits ws vs \<Longrightarrow> 8 dvd sum_list ws \<Longrightarrow> length (encode_fields ws vs) = sum_list ws div 8"
  by (simp add: encode_fields_def length_pack length_join_fields)

lemma decode_encode_fields:
  "fits ws vs \<Longrightarrow> 8 dvd sum_list ws \<Longrightarrow> decode_fields ws (encode_fields ws vs) = vs"
  using split_join_fields [of ws vs "[]"]
  by (simp add: decode_fields_def encode_fields_def bits_of_pack length_join_fields)

lemma encode_decode_fields:
  "8 * length bs = sum_list ws \<Longrightarrow> encode_fields ws (decode_fields ws bs) = bs"
  by (simp add: decode_fields_def encode_fields_def join_split_fields)

lemma fits_decode_fields: "sum_list ws \<le> 8 * length bs \<Longrightarrow> fits ws (decode_fields ws bs)"
  by (simp add: decode_fields_def fits_split_fields)

text \<open>Reading the fields of a layout byte by byte.\<close>

lemma split_fields_bytes [bit_eval]:
  "split_fields (16 # ws) (byte_bits a @ byte_bits b @ r)
     = bits_val (byte_bits a @ byte_bits b) # split_fields ws r"
  "split_fields (16 # ws) (byte_bits a @ byte_bits b)
     = bits_val (byte_bits a @ byte_bits b) # split_fields ws []"
  "split_fields (32 # ws) (byte_bits a @ byte_bits b @ byte_bits c @ byte_bits d @ r)
     = bits_val (byte_bits a @ byte_bits b @ byte_bits c @ byte_bits d) # split_fields ws r"
  by simp_all

lemma split_fields_slices [bit_eval]:
  "split_fields (4 # ws) (byte_bits b @ r)
     = bits_val [bit b 7, bit b 6, bit b 5, bit b 4]
         # split_fields ws (bit b 3 # bit b 2 # bit b 1 # bit b 0 # r)"
  "split_fields (Suc 0 # ws) (byte_bits b @ r)
     = bits_val [bit b 7]
         # split_fields ws (bit b 6 # bit b 5 # bit b 4 # bit b 3 # bit b 2 # bit b 1 # bit b 0 # r)"
  "split_fields (4 # ws) (a # b' # c # d # r) = bits_val [a, b', c, d] # split_fields ws r"
  "split_fields (3 # ws) (a # b' # c # r) = bits_val [a, b', c] # split_fields ws r"
  "split_fields (Suc 0 # ws) (a # r) = bits_val [a] # split_fields ws r"
  by (simp_all add: byte_bits_def)

declare split_fields.simps(2) [simp del]

lemma take_nths:
  "8 \<le> length bs \<Longrightarrow> take 8 bs = [bs ! 0, bs ! 1, bs ! 2, bs ! 3, bs ! 4, bs ! 5, bs ! 6, bs ! 7]"
  "12 \<le> length bs \<Longrightarrow> take 12 bs = [bs ! 0, bs ! 1, bs ! 2, bs ! 3, bs ! 4, bs ! 5, bs ! 6, bs ! 7,
     bs ! 8, bs ! 9, bs ! 10, bs ! 11]"
  "20 \<le> length bs \<Longrightarrow> take 20 bs = [bs ! 0, bs ! 1, bs ! 2, bs ! 3, bs ! 4, bs ! 5, bs ! 6, bs ! 7,
     bs ! 8, bs ! 9, bs ! 10, bs ! 11, bs ! 12, bs ! 13, bs ! 14, bs ! 15, bs ! 16, bs ! 17, bs ! 18, bs ! 19]"
  by (rule nth_equalityI, simp, simp add: nth_Cons' numeral_eq_Suc less_Suc_eq_le le_Suc_eq, force)+

section \<open>Slices of a promoted byte\<close>

text \<open>
  The shifts and masks of the extractors, applied to a byte promoted to \<^verbatim>\<open>int\<close>. The
  simplifier moves a shift inside a mask, so the slices are stated in that form.
\<close>

lemma promoted_slices [bit_eval]:
  fixes b :: byte
  shows "unat (drop_bit 4 (ucast b :: u32)) = bits_val [bit b 7, bit b 6, bit b 5, bit b 4]"
    and "unat (drop_bit (Suc 0) (ucast b :: u32) AND 7) = bits_val [bit b 3, bit b 2, bit b 1]"
    and "unat (drop_bit 7 (ucast b :: u32)) = bits_val [bit b 7]"
    and "unat (drop_bit 3 (ucast b :: u32) AND 15) = bits_val [bit b 6, bit b 5, bit b 4, bit b 3]"
    and "unat (drop_bit 2 (ucast b :: u32) AND 1) = bits_val [bit b 2]"
    and "unat (drop_bit (Suc 0) (ucast b :: u32) AND 1) = bits_val [bit b 1]"
    and "unat (ucast b AND 1 :: u32) = bits_val [bit b 0]"
    and "unat (drop_bit 4 (ucast b :: u32) AND 7) = bits_val [bit b 6, bit b 5, bit b 4]"
    and "unat (ucast b AND 15 :: u32) = bits_val [bit b 3, bit b 2, bit b 1, bit b 0]"
  by (simp_all add: unat_word_bits bit_simps bit_eval eval_nat_numeral)

text \<open>The same slices stored in a \<^verbatim>\<open>uint16_t\<close>.\<close>

lemma stored_slices [bit_eval]:
  fixes b :: byte
  shows "unat (ucast (drop_bit 7 (ucast b :: u32)) :: u16) = bits_val [bit b 7]"
    and "unat (ucast (drop_bit 3 (ucast b :: u32) AND 15) :: u16)
      = bits_val [bit b 6, bit b 5, bit b 4, bit b 3]"
    and "unat (ucast (drop_bit 2 (ucast b :: u32) AND 1) :: u16) = bits_val [bit b 2]"
    and "unat (ucast (drop_bit (Suc 0) (ucast b :: u32) AND 1) :: u16) = bits_val [bit b 1]"
    and "unat (ucast (ucast b AND 1 :: u32) :: u16) = bits_val [bit b 0]"
    and "unat (ucast (drop_bit 4 (ucast b :: u32) AND 7) :: u16) = bits_val [bit b 6, bit b 5, bit b 4]"
    and "unat (ucast (ucast b AND 15 :: u32) :: u16) = bits_val [bit b 3, bit b 2, bit b 1, bit b 0]"
  by (simp_all only: unat_word_bits) (simp_all add: bit_simps bit_eval eval_nat_numeral)

lemma promoted_mask: "n < 8 \<Longrightarrow> ucast (b :: byte) AND 2 ^ n \<noteq> (0 :: u32) \<longleftrightarrow> bit b n"
  by (subst and_exp_eq_0_iff_not_bit) (simp add: bit_simps)

lemma promoted_masks [bit_eval]:
  fixes b :: byte
  shows "ucast b AND 1 \<noteq> (0 :: u32) \<longleftrightarrow> bit b 0"
    and "ucast b AND 2 \<noteq> (0 :: u32) \<longleftrightarrow> bit b 1"
    and "ucast b AND 4 \<noteq> (0 :: u32) \<longleftrightarrow> bit b 2"
    and "ucast b AND 8 \<noteq> (0 :: u32) \<longleftrightarrow> bit b 3"
    and "ucast b AND 16 \<noteq> (0 :: u32) \<longleftrightarrow> bit b 4"
    and "ucast b AND 32 \<noteq> (0 :: u32) \<longleftrightarrow> bit b 5"
    and "ucast b AND 64 \<noteq> (0 :: u32) \<longleftrightarrow> bit b 6"
    and "ucast b AND 128 \<noteq> (0 :: u32) \<longleftrightarrow> bit b 7"
  using promoted_mask [of 0 b] promoted_mask [of 1 b] promoted_mask [of 2 b] promoted_mask [of 3 b]
    promoted_mask [of 4 b] promoted_mask [of 5 b] promoted_mask [of 6 b] promoted_mask [of 7 b]
  by simp_all

section \<open>The contract of a header extractor\<close>

text \<open>
  \<open>dec\<close> decodes the header at a pointer; \<open>vals\<close> lists the values of its fields in the
  order of the layout. A provider promises that a header of which \<open>sz\<close> bytes are there is decoded
  to the fields of the layout, and that a shorter one is an out-of-bounds read.
\<close>

locale header_decoder =
  fixes dec :: "cptr \<Rightarrow> fault + 'h"
    and vals :: "'h \<Rightarrow> nat list"
    and layout :: "nat list"
    and sz :: nat
  assumes layout_size: "sum_list layout = 8 * sz"
    and dec_long: "sz \<le> length bs \<Longrightarrow>
          \<exists>h. dec bs = Inr h \<and> vals h = decode_fields layout (take sz bs)"
    and dec_short: "length bs < sz \<Longrightarrow> dec bs = Inl OutOfBounds"
    and vals_inj: "dec p = Inr h \<Longrightarrow> dec q = Inr k \<Longrightarrow> vals h = vals k \<Longrightarrow> h = k"
begin

lemma dec_succeeds_iff: "(\<exists>h. dec bs = Inr h) \<longleftrightarrow> sz \<le> length bs"
  using dec_long [of bs] dec_short [of bs] by (cases "sz \<le> length bs") auto

lemma dec_vals:
  assumes "dec bs = Inr h"
  shows "sz \<le> length bs" and "vals h = decode_fields layout (take sz bs)"
proof -
  show "sz \<le> length bs" using assms dec_succeeds_iff [of bs] by blast
  then obtain k where "dec bs = Inr k" "vals k = decode_fields layout (take sz bs)"
    using dec_long by blast
  with assms show "vals h = decode_fields layout (take sz bs)" by simp
qed

lemma vals_fit: "dec bs = Inr h \<Longrightarrow> fits layout (vals h)"
  using dec_vals [of bs h] by (simp add: fits_decode_fields layout_size)

lemma dec_encode:
  assumes "fits layout vs"
  shows "\<exists>h. dec (encode_fields layout vs @ rest) = Inr h \<and> vals h = vs"
proof -
  have "length (encode_fields layout vs) = sz"
    using assms by (simp add: length_encode_fields layout_size)
  then show ?thesis
    using dec_long [of "encode_fields layout vs @ rest"] assms
    by (simp add: decode_encode_fields layout_size)
qed

lemma encode_dec:
  assumes "dec bs = Inr h"
  shows "encode_fields layout (vals h) = take sz bs"
  using dec_vals [OF assms] by (simp add: encode_decode_fields layout_size)

lemma dec_prefix:
  assumes "sz \<le> length bs" and "take sz bs = take sz cs"
  shows "dec bs = dec cs"
proof -
  have "sz \<le> length cs" using assms by (metis length_take min.absorb_iff2 min.cobounded1 min.commute)
  then obtain h k where h: "dec bs = Inr h" and k: "dec cs = Inr k"
    using assms(1) dec_succeeds_iff by blast
  then have "vals h = vals k" using dec_vals assms(2) by metis
  with h k show ?thesis using vals_inj by metis
qed

lemma dec_inj:
  assumes "dec bs = Inr h" and "dec cs = Inr h"
  shows "take sz bs = take sz cs"
  using encode_dec [OF assms(1)] encode_dec [OF assms(2)] by simp

end

end
