(* ===== verification/Utils.thy ===== *)
theory Utils
  imports Bit_Layout
begin

text \<open>
  \<^verbatim>\<open>sniff/src/utils.c\<close>: the big-endian reads of two and four bytes every header extractor is
  made of, and the hexadecimal dump of a buffer.
\<close>

section \<open>conv2BytesToInt and conv4BytesToInt\<close>

definition conv2BytesToInt :: "cptr \<Rightarrow> fault + u32" where
  "conv2BytesToInt p =
     rbind (rd p 0) (\<lambda>b0. let i = ucast b0 :: u32 in
     rbind (rd p 1) (\<lambda>b1. Inr (push_bit 8 i OR ucast b1)))"

definition conv4BytesToInt :: "cptr \<Rightarrow> fault + u32" where
  "conv4BytesToInt p =
     rbind (rd p 0) (\<lambda>b0. let res = ucast b0 :: u32 in
     rbind (rd p 1) (\<lambda>b1. let res = push_bit 8 res OR ucast b1 in
     rbind (rd p 2) (\<lambda>b2. let res = push_bit 8 res OR ucast b2 in
     rbind (rd p 3) (\<lambda>b3. let res = push_bit 8 res OR ucast b3 in
     Inr res))))"

text \<open>The values as bit strings: the bytes in the order they are stored.\<close>

definition be2 :: "byte \<Rightarrow> byte \<Rightarrow> u32" where
  "be2 a b = push_bit 8 (ucast a) OR ucast b"

definition be4 :: "byte \<Rightarrow> byte \<Rightarrow> byte \<Rightarrow> byte \<Rightarrow> u32" where
  "be4 a b c d = push_bit 8 (push_bit 8 (push_bit 8 (ucast a) OR ucast b) OR ucast c) OR ucast d"

lemma unat_be2 [bit_eval]: "unat (be2 a b) = bits_val (byte_bits a @ byte_bits b)"
  by (simp add: be2_def unat_word_bits byte_bits_def bit_simps bit_eval)

lemma unat_be4 [bit_eval]:
  "unat (be4 a b c d) = bits_val (byte_bits a @ byte_bits b @ byte_bits c @ byte_bits d)"
  by (simp add: be4_def unat_word_bits byte_bits_def bit_simps bit_eval)

lemma conv2_eq [run_simps]:
  "conv2BytesToInt bs = (if 2 \<le> length bs then Inr (be2 (bs ! 0) (bs ! 1)) else Inl OutOfBounds)"
  by (auto simp: conv2BytesToInt_def be2_def rd_def padd_def Let_def)

lemma conv4_eq [run_simps]:
  "conv4BytesToInt bs
     = (if 4 \<le> length bs then Inr (be4 (bs ! 0) (bs ! 1) (bs ! 2) (bs ! 3)) else Inl OutOfBounds)"
  by (auto simp: conv4BytesToInt_def be4_def rd_def padd_def Let_def)

lemma be2_unat: "unat (be2 a b) = 256 * unat a + unat b"
  by (simp add: unat_be2 bits_val_append unat_byte_bits)

lemma be4_unat: "unat (be4 a b c d) = 16777216 * unat a + 65536 * unat b + 256 * unat c + unat d"
  by (simp add: unat_be4 bits_val_append unat_byte_bits)

lemma be2_less: "unat (be2 a b) < 65536"
  using bits_val_less [of "byte_bits a @ byte_bits b"] by (simp add: unat_be2)

lemma unat_be2_u16 [bit_eval]: "unat (ucast (be2 a b) :: u16) = bits_val (byte_bits a @ byte_bits b)"
  using be2_less [of a b] by (simp add: unat_be2 unsigned_ucast_eq take_bit_nat_eq_self)

section \<open>Multi-byte fields of a packed struct\<close>

text \<open>
  Loads through a pointer to a packed struct on the little-endian host the programs are built for, the
  conversions to host order there, and the dotted form of an address.
\<close>

definition load16 :: "cptr \<Rightarrow> nat \<Rightarrow> fault + u16" where
  "load16 p i = rbind (rd p i) (\<lambda>a. rbind (rd p (i + 1)) (\<lambda>b. Inr (push_bit 8 (ucast b) OR ucast a)))"

definition load32 :: "cptr \<Rightarrow> nat \<Rightarrow> fault + u32" where
  "load32 p i =
     rbind (rd p i) (\<lambda>a. rbind (rd p (i + 1)) (\<lambda>b. rbind (rd p (i + 2)) (\<lambda>c. rbind (rd p (i + 3)) (\<lambda>d.
       Inr (push_bit 24 (ucast d) OR push_bit 16 (ucast c) OR push_bit 8 (ucast b) OR ucast a)))))"

definition ntohs :: "u16 \<Rightarrow> u16" where
  "ntohs v = push_bit 8 v OR drop_bit 8 v"

definition ntohl :: "u32 \<Rightarrow> u32" where
  "ntohl v = push_bit 24 v OR push_bit 16 (take_bit 8 (drop_bit 8 v)) OR
     push_bit 8 (take_bit 8 (drop_bit 16 v)) OR drop_bit 24 v"

definition inet_ntoa :: "u32 \<Rightarrow> string" where
  "inet_ntoa a =
     show_dec (unat (take_bit 8 a)) @ ''.'' @ show_dec (unat (take_bit 8 (drop_bit 8 a))) @ ''.'' @
     show_dec (unat (take_bit 8 (drop_bit 16 a))) @ ''.'' @ show_dec (unat (drop_bit 24 a))"

definition le2 :: "byte \<Rightarrow> byte \<Rightarrow> u16" where
  "le2 a b = push_bit 8 (ucast b) OR ucast a"

definition le4 :: "byte \<Rightarrow> byte \<Rightarrow> byte \<Rightarrow> byte \<Rightarrow> u32" where
  "le4 a b c d = push_bit 24 (ucast d) OR push_bit 16 (ucast c) OR push_bit 8 (ucast b) OR ucast a"

lemma load16_eq: "i + 1 < length p \<Longrightarrow> load16 p i = Inr (le2 (p ! i) (p ! (i + 1)))"
  by (simp add: load16_def le2_def)

lemma load32_eq: "i + 3 < length p \<Longrightarrow> load32 p i = Inr (le4 (p ! i) (p ! (i + 1)) (p ! (i + 2)) (p ! (i + 3)))"
  by (simp add: load32_def le4_def)

lemma ntohs_be2: "ntohs (push_bit 8 (ucast b) OR ucast a) = ucast (be2 a b)" for a b :: byte
  by (rule bit_word_eqI) (auto simp: ntohs_def be2_def bit_simps not_bit_byte)

lemma ntohs_le2: "ntohs (le2 a b) = ucast (be2 a b)"
  by (simp add: le2_def ntohs_be2)

lemma bit_byteD: "bit (b :: byte) n \<Longrightarrow> n < 8"
  using not_bit_byte [of n b] by (cases "n < 8") simp_all

lemma le4_bytes:
  "take_bit 8 (le4 a b c d) = ucast a" "take_bit 8 (drop_bit 8 (le4 a b c d)) = ucast b"
  "take_bit 8 (drop_bit 16 (le4 a b c d)) = ucast c" "drop_bit 24 (le4 a b c d) = ucast d"
  "push_bit 24 (le4 a b c d) = push_bit 24 (ucast a)"
  by (rule bit_word_eqI; auto simp: le4_def bit_simps dest: bit_byteD)+

lemma ntohl_le4: "ntohl (le4 a b c d) = be4 a b c d"
  unfolding ntohl_def le4_bytes be4_def by (simp add: push_bit_or or.assoc)

lemma unat_promoted: "unat (ucast b :: u32) = unat b" for b :: byte
proof -
  have "unat b < 256" using unsigned_less [of b] by simp
  then show ?thesis by (simp add: unsigned_ucast_eq take_bit_nat_eq_self)
qed

lemma inet_ntoa_le4:
  "inet_ntoa (le4 a b c d) =
     show_dec (unat a) @ ''.'' @ show_dec (unat b) @ ''.'' @ show_dec (unat c) @ ''.'' @ show_dec (unat d)"
  by (simp only: inet_ntoa_def le4_bytes unat_promoted)

section \<open>printHex\<close>

definition printHex :: "cptr \<Rightarrow> int \<Rightarrow> ('w world_scheme, unit) prog" where
  "printHex ptr len =
     pbind (for_each [0..<nat len] (print_byte (\<lambda>_ b. show_02X b @ '' '') ptr)) (\<lambda>_. puts nl)"

text \<open>The line a dump prints, and its inverse.\<close>

definition hex_line :: "byte list \<Rightarrow> string" where
  "hex_line bs = concat (map (\<lambda>b. show_02X b @ '' '') bs)"

definition unXdigit :: "char \<Rightarrow> nat" where
  "unXdigit c = (let n = of_char c in if n < 58 then n - 48 else n - 55)"

fun parse_hex :: "string \<Rightarrow> byte list" where
  "parse_hex (h # l # s # cs) = of_nat (16 * unXdigit h + unXdigit l) # parse_hex cs"
| "parse_hex _ = []"

lemma unXdigit_Xdigit: "d < 16 \<Longrightarrow> unXdigit (Xdigit d) = d"
  by (auto simp: unXdigit_def Xdigit_def Let_def)

lemma parse_hex_line: "parse_hex (hex_line bs @ nl) = bs"
proof (induction bs)
  case Nil
  then show ?case by (simp add: hex_line_def nl_def)
next
  case (Cons b bs)
  have "unat b < 256" using unsigned_less [of b] by simp
  then have "unat b div 16 < 16" by simp
  with Cons show ?case
    by (simp add: hex_line_def show_02X_def unXdigit_Xdigit)
qed

lemma printHex_run:
  "printHex p n w =
     (if nat n \<le> length p then Inr ((), grown 0 (hex_line (take (nat n) p) @ nl) w)
      else Inl OutOfBounds)"
proof (cases "nat n \<le> length p")
  case True
  have "map (\<lambda>j. show_02X (p ! j) @ '' '') [0..<nat n] = map (\<lambda>b. show_02X b @ '' '') (take (nat n) p)"
    using True by (intro nth_equalityI) simp_all
  with True show ?thesis
    by (simp add: printHex_def pbind_def run_simps hex_line_def)
next
  case False
  then show ?thesis by (simp add: printHex_def pbind_def run_simps)
qed

section \<open>Properties\<close>

text \<open>
  The two converters read an unsigned integer in network byte order, most significant byte
  first, and an operand that is too short is an out-of-bounds read.
\<close>

theorem conv_big_endian:
  "map_sum id unat (conv2BytesToInt p) =
     (if 2 \<le> length p then Inr (256 * unat (p ! 0) + unat (p ! 1)) else Inl OutOfBounds) \<and>
   map_sum id unat (conv4BytesToInt p) =
     (if 4 \<le> length p
      then Inr (16777216 * unat (p ! 0) + 65536 * unat (p ! 1) + 256 * unat (p ! 2) + unat (p ! 3))
      else Inl OutOfBounds)"
  by (simp add: run_simps be2_unat be4_unat)

text \<open>
  C32: the line \<^verbatim>\<open>printHex\<close> prints for \<open>n\<close> available bytes determines them: parsing it back as
  pairs of hexadecimal digits gives the bytes.
\<close>

theorem printHex_roundtrip:
  assumes "nat n \<le> length p"
  shows "\<exists>s. printHex p n w = Inr ((), grown 0 s w) \<and> parse_hex s = take (nat n) p"
  using assms by (auto simp: printHex_run parse_hex_line)

theorem printHex_roundtrip_witness:
  "\<exists>s. printHex [0x1F, 0xA0, 7] 2 start_world = Inr ((), grown 0 s start_world) \<and>
     parse_hex s = [0x1F, 0xA0]"
  using printHex_roundtrip [of 2 "[0x1F, 0xA0, 7]" start_world] by (simp add: numeral_2_eq_2)

end
