(* ===== verification/Afp_Log.thy ===== *)
theory Afp_Log
  imports Utils
begin

text \<open>
  \<^verbatim>\<open>sniff_afpacket/src/source-af-packet.c\<close>: the global state of the program, its log file, and the
  hex dump \<^verbatim>\<open>PrintData\<close>. The log is \<open>None\<close> while \<^verbatim>\<open>logfile\<close> is the null pointer.
\<close>

record afp_world = world +
  logfile :: "string option"
  total_count :: int
  tcp_count :: int
  udp_count :: int
  icmp_count :: int
  igmp_count :: int
  others_count :: int
  source :: u32
  dest :: u32
  errout :: string

definition flog :: "string \<Rightarrow> ('w afp_world_scheme, unit) prog" where
  "flog s w = (case logfile w of None \<Rightarrow> Inl NullPtr | Some t \<Rightarrow> Inr ((), w\<lparr>logfile := Some (t @ s)\<rparr>))"

text \<open>The log was opened.\<close>

definition log_open :: "'w afp_world_scheme \<Rightarrow> bool" where
  "log_open w \<longleftrightarrow> logfile w \<noteq> None"

text \<open>The state after \<open>s\<close> has been logged.\<close>

definition logged :: "string \<Rightarrow> 'w afp_world_scheme \<Rightarrow> 'w afp_world_scheme" where
  "logged s w = w\<lparr>logfile := map_option (\<lambda>t. t @ s) (logfile w)\<rparr>"

lemma logged_logged [simp]: "logged t (logged s w) = logged (s @ t) w"
  by (simp add: logged_def option.map_comp comp_def)

lemma logged_Nil [simp]: "logged [] w = w"
  by (cases "logfile w") (simp_all add: logged_def)

lemma log_open_logged [simp]: "log_open (logged s w) \<longleftrightarrow> log_open w"
  by (simp add: logged_def log_open_def)

lemma flog_run [simp]: "log_open w \<Longrightarrow> flog s w = Inr ((), logged s w)"
  by (auto simp: flog_def logged_def log_open_def)

lemma flog_null [simp]: "\<not> log_open w \<Longrightarrow> flog s w = Inl NullPtr"
  by (simp add: flog_def log_open_def)

lemma pbind_flog [simp]: "log_open w \<Longrightarrow> pbind (flog s) f w = f () (logged s w)"
  by (simp add: pbind_def)

lemma pbind_flog_null [simp]: "\<not> log_open w \<Longrightarrow> pbind (flog s) f w = Inl NullPtr"
  by (simp add: pbind_def)

text \<open>
  A program that, whenever the log is open, only appends \<open>t\<close> to it. The rules follow the shape of the
  program and compute the text.
\<close>

definition logs :: "('w afp_world_scheme, unit) prog \<Rightarrow> string \<Rightarrow> bool" where
  "logs m t \<longleftrightarrow> (\<forall>w. log_open w \<longrightarrow> m w = Inr ((), logged t w))"

named_theorems logs_intros

lemma logs_run: "logs m t \<Longrightarrow> log_open w \<Longrightarrow> m w = Inr ((), logged t w)"
  by (simp add: logs_def)

lemma logs_cong: "logs m s \<Longrightarrow> s = t \<Longrightarrow> logs m t"
  by simp

lemma logs_flog [logs_intros]: "logs (flog s) s"
  by (simp add: logs_def)

lemma logs_ret [logs_intros]: "logs (ret ()) []"
  by (simp add: logs_def)

lemma logs_bind [logs_intros]: "logs m s \<Longrightarrow> logs (f ()) t \<Longrightarrow> logs (pbind m f) (s @ t)"
  by (simp add: logs_def pbind_step)

lemma logs_lift [logs_intros]: "r = Inr b \<Longrightarrow> logs (f b) t \<Longrightarrow> logs (pbind (lift r) f) t"
  by (simp add: logs_def)

lemma logs_if [logs_intros]:
  "(c \<Longrightarrow> logs m s) \<Longrightarrow> (\<not> c \<Longrightarrow> logs m' t) \<Longrightarrow> logs (if c then m else m') (if c then s else t)"
  by simp

lemma logs_for_each [logs_intros]:
  assumes "\<And>x. x \<in> set xs \<Longrightarrow> logs (f x) (t x)"
  shows "logs (for_each xs f) (concat (map t xs))"
  using assms
proof (induction xs)
  case Nil
  then show ?case by (simp add: logs_def)
next
  case (Cons x xs)
  then have "logs (for_each xs f) (concat (map t xs))" and "logs (f x) (t x)" by simp_all
  then show ?case using logs_bind [of "f x" "t x" "\<lambda>_. for_each xs f"] by simp
qed

section \<open>PrintData\<close>

definition gap3 :: string where "gap3 = ''   ''"
definition gap9 :: string where "gap9 = ''         ''"

definition dump_char :: "byte \<Rightarrow> char" where
  "dump_char b = (if 32 \<le> b \<and> b \<le> 128 then show_c b else CHR ''.'')"

definition print_dump_char :: "cptr \<Rightarrow> nat \<Rightarrow> ('w afp_world_scheme, unit) prog" where
  "print_dump_char data j = pbind (lift (rd data j)) (\<lambda>b. flog [dump_char b])"

text \<open>One iteration of the loop.\<close>

definition PrintData_step :: "cptr \<Rightarrow> nat \<Rightarrow> nat \<Rightarrow> ('w afp_world_scheme, unit) prog" where
  "PrintData_step data n i =
     pbind (if i \<noteq> 0 \<and> i mod 16 = 0
            then pbind (flog gap9) (\<lambda>_.
                 pbind (for_each [i - 16..<i] (print_dump_char data)) (\<lambda>_.
                 flog nl))
            else ret ()) (\<lambda>_.
     pbind (if i mod 16 = 0 then flog gap3 else ret ()) (\<lambda>_.
     pbind (lift (rd data i)) (\<lambda>b.
     pbind (flog ('' '' @ show_02X b)) (\<lambda>_.
     if i + 1 = n
     then pbind (for_each [0..<15 - i mod 16] (\<lambda>_. flog gap3)) (\<lambda>_.
          pbind (flog gap9) (\<lambda>_.
          pbind (for_each [i - i mod 16..<i + 1] (print_dump_char data)) (\<lambda>_.
          flog nl)))
     else ret ()))))"

definition PrintData :: "cptr \<Rightarrow> int \<Rightarrow> ('w afp_world_scheme, unit) prog" where
  "PrintData data Size = for_each [0..<nat Size] (PrintData_step data (nat Size))"

section \<open>The dump as text\<close>

definition hex_bytes :: "byte list \<Rightarrow> string" where
  "hex_bytes bs = concat (map (\<lambda>b. '' '' @ show_02X b) bs)"

definition dump_line :: "byte list \<Rightarrow> string" where
  "dump_line bs = gap3 @ hex_bytes bs @ concat (replicate (16 - length bs) gap3) @ gap9 @
     map dump_char bs @ nl"

fun dump_text :: "byte list \<Rightarrow> string" where
  "dump_text [] = []"
| "dump_text (b # bs) = dump_line (take 16 (b # bs)) @ dump_text (drop 15 bs)"

text \<open>What iteration \<open>i\<close> logs.\<close>

definition step_text :: "cptr \<Rightarrow> nat \<Rightarrow> nat \<Rightarrow> string" where
  "step_text data n i =
     (if i \<noteq> 0 \<and> i mod 16 = 0 then gap9 @ map (\<lambda>j. dump_char (data ! j)) [i - 16..<i] @ nl else []) @
     (if i mod 16 = 0 then gap3 else []) @ '' '' @ show_02X (data ! i) @
     (if i + 1 = n
      then concat (replicate (15 - i mod 16) gap3) @ gap9 @
        map (\<lambda>j. dump_char (data ! j)) [i - i mod 16..<i + 1] @ nl
      else [])"

lemma logs_dump_chars:
  "\<forall>j \<in> set js. j < length data \<Longrightarrow>
   logs (for_each js (print_dump_char data)) (map (\<lambda>j. dump_char (data ! j)) js)"
  using logs_for_each [of js "print_dump_char data" "\<lambda>j. [dump_char (data ! j)]"]
  by (simp add: print_dump_char_def logs_flog)

lemma logs_pad: "logs (for_each [0..<k] (\<lambda>_. flog s)) (concat (replicate k s))"
  using logs_for_each [of "[0..<k]" "\<lambda>_. flog s" "\<lambda>_. s"] by (simp add: map_replicate_const logs_flog)

lemma PrintData_step_logs:
  assumes "i < length data"
  shows "logs (PrintData_step data n i) (step_text data n i)"
proof -
  have "\<forall>j \<in> set [i - 16..<i]. j < length data" "\<forall>j \<in> set [i - i mod 16..<i + 1]. j < length data"
    using assms by auto
  note chars = this [THEN logs_dump_chars]
  show ?thesis
    unfolding PrintData_step_def
    by (rule logs_cong, (rule logs_intros chars logs_pad rd_in assms)+) (simp add: step_text_def)
qed

text \<open>The first line of a dump, and the shift to the next one.\<close>

lemma map_nth_take: "k \<le> length d \<Longrightarrow> map (\<lambda>j. f (d ! j)) [0..<k] = map f (take k d)"
  by (rule nth_equalityI) simp_all

lemma hex_bytes_snoc: "k < length d \<Longrightarrow> hex_bytes (take (Suc k) d) = hex_bytes (take k d) @ '' '' @ show_02X (d ! k)"
  by (simp add: hex_bytes_def take_Suc_conv_app_nth)

lemma first_line:
  assumes "k \<le> n" and "k \<le> 16" and "n \<le> length d"
  shows "concat (map (step_text d n) [0..<k]) =
    (if k = 0 then []
     else gap3 @ hex_bytes (take k d) @
       (if k = n then concat (replicate (16 - n) gap3) @ gap9 @ map dump_char (take n d) @ nl else []))"
  using assms
proof (induction k)
  case 0
  then show ?case by simp
next
  case (Suc k)
  have hex: "hex_bytes (take (Suc k) d) = hex_bytes (take k d) @ '' '' @ show_02X (d ! k)"
    using Suc.prems by (intro hex_bytes_snoc) simp
  have last: "map (\<lambda>j. dump_char (d ! j)) [0..<Suc k] = map dump_char (take (Suc k) d)"
    using Suc.prems by (intro map_nth_take) simp
  have step: "step_text d n k = (if k = 0 then gap3 else []) @ '' '' @ show_02X (d ! k) @
      (if Suc k = n then concat (replicate (16 - n) gap3) @ gap9 @ map dump_char (take n d) @ nl else [])"
    using Suc.prems last by (auto simp: step_text_def simp del: upt_Suc)
  show ?case
    using Suc.IH Suc.prems step unfolding upt_Suc_append [OF le0] map_append concat_append hex
    by (cases "k = 0") (simp_all add: hex_bytes_def)
qed

lemma step_text_shift:
  assumes "16 + j < n" and "n \<le> length d"
  shows "step_text d n (16 + j) =
    (if j = 0 then gap9 @ map dump_char (take 16 d) @ nl else []) @ step_text (drop 16 d) (n - 16) j"
proof -
  have chars: "map (\<lambda>i. dump_char (d ! i)) [16 + a..<16 + b] = map (\<lambda>i. dump_char (drop 16 d ! i)) [a..<b]"
    if "b \<le> length d - 16" for a b
    using that assms by (intro nth_equalityI) (auto simp: add.assoc)
  have 1: "map (\<lambda>i. dump_char (d ! i)) [j..<16 + j] = map (\<lambda>i. dump_char (drop 16 d ! i)) [j - 16..<j]"
    if "j \<noteq> 0" "j mod 16 = 0"
    using that chars [of j "j - 16"] assms by auto
  have 2: "map (\<lambda>i. dump_char (d ! i)) [16 + j - j mod 16..<16 + j + 1]
      = map (\<lambda>i. dump_char (drop 16 d ! i)) [j - j mod 16..<j + 1]"
    using chars [of "j + 1" "j - j mod 16"] assms by (simp add: add.assoc del: upt_Suc)
  have 3: "map (\<lambda>i. dump_char (d ! i)) [0..<16] = map dump_char (take 16 d)"
    using assms by (intro map_nth_take) simp
  obtain m where n: "n = 16 + m" using assms(1) by (metis add_lessD1 le_add_diff_inverse less_imp_le)
  have mod: "(16 + j) mod 16 = j mod 16" and nth: "d ! (16 + j) = drop 16 d ! j" and sub: "16 + j - 16 = j"
    and last: "16 + j + 1 = 16 + m \<longleftrightarrow> j + 1 = m"
    using assms by auto
  show ?thesis
    using 1 2 3 unfolding step_text_def mod sub nth n last diff_add_inverse
    by (cases "j = 0") (auto simp del: upt_Suc)
qed

lemma dump_text_take_drop: "bs \<noteq> [] \<Longrightarrow> dump_text bs = dump_line (take 16 bs) @ dump_text (drop 16 bs)"
  by (cases bs) simp_all

lemma steps_dump_text: "n \<le> length d \<Longrightarrow> concat (map (step_text d n) [0..<n]) = dump_text (take n d)"
proof (induction n arbitrary: d rule: less_induct)
  case (less n)
  consider "n = 0" | "0 < n" "n \<le> 16" | "16 < n" by linarith
  then show ?case
  proof cases
    case 1
    then show ?thesis by simp
  next
    case 2
    then have "take 16 (take n d) = take n d" "drop 16 (take n d) = []" "take n d \<noteq> []"
      using less.prems by auto
    with 2 first_line [of n n d] less.prems show ?thesis
      by (simp add: dump_text_take_drop dump_line_def min.absorb2)
  next
    case 3
    have split: "[0..<n] = [0..<16] @ map ((+) 16) (0 # [1..<n - 16])"
    proof -
      have "[0..<n] = [0..<16] @ [16..<n]" using 3 upt_add_eq_append [of 0 16 "n - 16"] by simp
      moreover have "[16..<n] = map ((+) 16) [0..<n - 16]" using 3 using 3 by (intro nth_equalityI) simp_all
      moreover have "[0..<n - 16] = 0 # [1..<n - 16]" using 3 by (simp add: upt_conv_Cons)
      ultimately show ?thesis by simp
    qed
    have "concat (map (step_text d n) (map ((+) 16) (0 # [1..<n - 16])))
      = gap9 @ map dump_char (take 16 d) @ nl @ concat (map (step_text (drop 16 d) (n - 16)) (0 # [1..<n - 16]))"
    proof -
      have rest: "map (step_text d n) (map ((+) 16) [1..<n - 16]) = map (step_text (drop 16 d) (n - 16)) [1..<n - 16]"
        using less.prems by (auto simp: step_text_shift)
      have "step_text d n (16 + 0) = gap9 @ map dump_char (take 16 d) @ nl @ step_text (drop 16 d) (n - 16) 0"
        using step_text_shift [of 0 n d] 3 less.prems by simp
      then show ?thesis unfolding list.map(2) concat.simps(2) rest by (simp only: append_assoc)
    qed
    moreover have "0 # [1..<n - 16] = [0..<n - 16]" using 3 by (simp add: upt_conv_Cons)
    moreover have "concat (map (step_text (drop 16 d) (n - 16)) [0..<n - 16]) = dump_text (take (n - 16) (drop 16 d))"
      using 3 less.prems by (intro less.IH) simp_all
    moreover have "concat (map (step_text d n) [0..<16]) = gap3 @ hex_bytes (take 16 d)"
      using first_line [of 16 n d] 3 less.prems by simp
    ultimately have "concat (map (step_text d n) [0..<n])
        = gap3 @ hex_bytes (take 16 d) @ gap9 @ map dump_char (take 16 d) @ nl
          @ dump_text (take (n - 16) (drop 16 d))"
      unfolding split map_append concat_append by (simp only: append_assoc)
    moreover have "take n d \<noteq> []" using 3 less.prems by auto
    ultimately show ?thesis
      using 3 less.prems by (simp add: dump_text_take_drop [of "take n d"] dump_line_def min.absorb1 drop_take)
  qed
qed

lemma PrintData_logs:
  assumes "nat Size \<le> length data"
  shows "logs (PrintData data Size) (dump_text (take (nat Size) data))"
proof -
  have "logs (PrintData data Size) (concat (map (step_text data (nat Size)) [0..<nat Size]))"
    unfolding PrintData_def using assms by (intro logs_for_each PrintData_step_logs) auto
  then show ?thesis using steps_dump_text [OF assms] by simp
qed

section \<open>Reading a dump back\<close>

text \<open>The cells of a line, up to the first empty one; then the lines.\<close>

fun parse_cells :: "nat \<Rightarrow> string \<Rightarrow> byte list" where
  "parse_cells (Suc n) (s # h # l # cs) =
     (if h = CHR '' '' then [] else of_nat (16 * unXdigit h + unXdigit l) # parse_cells n cs)"
| "parse_cells _ _ = []"

function undump :: "string \<Rightarrow> byte list" where
  "undump cs =
     (if cs = [] then []
      else let bs = parse_cells 16 (drop 3 cs) in bs @ undump (drop (61 + length bs) cs))"
  by auto
termination by (relation "measure length") auto

declare undump.simps [simp del]

lemma Xdigit_not_space: "d < 16 \<Longrightarrow> Xdigit d \<noteq> CHR '' ''"
proof -
  assume "d < 16"
  then have "of_char (Xdigit d) \<noteq> (32 :: nat)" by (auto simp: Xdigit_def)
  moreover have "of_char (CHR '' '') = (32 :: nat)" by simp
  ultimately show ?thesis by metis
qed

lemma parse_cells_pad: "parse_cells n (concat (replicate n gap3) @ r) = []"
  by (cases n) (simp_all add: gap3_def)

lemma parse_cells_hex:
  "length bs \<le> n \<Longrightarrow>
   parse_cells n (hex_bytes bs @ concat (replicate (n - length bs) gap3) @ r) = bs"
proof (induction bs arbitrary: n)
  case Nil
  then show ?case by (simp add: hex_bytes_def parse_cells_pad)
next
  case (Cons b bs)
  then obtain m where n: "n = Suc m" "length bs \<le> m" by (cases n) auto
  have "unat b < 256" using unsigned_less [of b] by simp
  then have "unat b div 16 < 16" by simp
  with Cons.IH [OF n(2)] n(1) show ?case
    by (simp add: hex_bytes_def show_02X_def Xdigit_not_space unXdigit_Xdigit)
qed

lemma length_hex_bytes: "length (hex_bytes bs) = 3 * length bs"
  by (induction bs) (simp_all add: hex_bytes_def show_02X_def)

lemma length_gaps: "length (concat (replicate k gap3)) = 3 * k"
  by (induction k) (simp_all add: gap3_def)

lemma length_dump_line: "length bs \<le> 16 \<Longrightarrow> length (dump_line bs) = 61 + length bs"
  by (simp add: dump_line_def length_hex_bytes length_gaps) (simp add: gap3_def gap9_def nl_def)

lemma undump_dump_text: "undump (dump_text bs) = bs"
proof (induction bs rule: dump_text.induct)
  case 1
  then show ?case by (simp add: undump.simps)
next
  case (2 b bs)
  let ?l = "take 16 (b # bs)"
  have len: "length ?l \<le> 16" by simp
  have "drop 3 (dump_line ?l @ r) = hex_bytes ?l @ concat (replicate (16 - length ?l) gap3) @ gap9 @ map dump_char ?l @ nl @ r" for r
    by (simp add: dump_line_def gap3_def)
  then have cells: "parse_cells 16 (drop 3 (dump_line ?l @ r)) = ?l" for r
    by (simp only: parse_cells_hex [OF len])
  have rest: "drop (61 + length ?l) (dump_line ?l @ dump_text (drop 15 bs)) = dump_text (drop 15 bs)"
    using length_dump_line [OF len] by simp
  have "dump_line ?l @ dump_text (drop 15 bs) \<noteq> []" by (simp add: dump_line_def gap3_def)
  then have "undump (dump_line ?l @ dump_text (drop 15 bs)) = ?l @ undump (dump_text (drop 15 bs))"
    by (subst undump.simps) (simp only: cells rest Let_def if_False)
  also have "\<dots> = b # bs" using 2 by simp
  finally show ?case by simp
qed

section \<open>Properties\<close>

lemma PrintData_over:
  fixes w :: "'a afp_world_scheme"
  assumes "log_open w" and "length data < nat Size"
  shows "PrintData data Size w = Inl OutOfBounds"
proof -
  let ?k = "length data"
  have "for_each [0..<?k] (PrintData_step data (nat Size)) w =
      Inr ((), logged (concat (map (step_text data (nat Size)) [0..<?k])) w)"
    using assms(1) by (intro logs_run logs_for_each PrintData_step_logs) simp_all
  moreover have "PrintData_step data (nat Size) ?k w' = Inl OutOfBounds" if "log_open w'" for w' :: "'a afp_world_scheme"
  proof -
    have "logs (for_each [?k - 16..<?k] (print_dump_char data) :: ('a afp_world_scheme, unit) prog)
        (map (\<lambda>j. dump_char (data ! j)) [?k - 16..<?k])"
      by (intro logs_dump_chars) auto
    from that logs_run [OF this] show ?thesis by (simp add: PrintData_step_def pbind_def)
  qed
  moreover have "[0..<nat Size] = [0..<?k] @ ?k # [Suc ?k..<nat Size]"
    using assms(2) upt_add_eq_append [of 0 ?k "nat Size - ?k"] by (simp add: upt_conv_Cons)
  ultimately show ?thesis
    using assms(1) by (simp add: PrintData_def for_each_append pbind_step pbind_fault)
qed

text \<open>
  C21: with an open log, \<^verbatim>\<open>PrintData\<close> writes the \<open>Size\<close> bytes at the pointer in lines of 16, each with
  the hexadecimal and the character column, when the bytes are there; the dump can be read back to
  exactly those bytes. When they are not all there, it reads out of bounds.
\<close>

theorem PrintData_dump:
  assumes "log_open w"
  shows "if nat Size \<le> length data
    then \<exists>t. PrintData data Size w = Inr ((), logged t w) \<and> t = dump_text (take (nat Size) data) \<and>
      undump t = take (nat Size) data
    else PrintData data Size w = Inl OutOfBounds"
  using assms PrintData_over [of w data Size] logs_run [OF PrintData_logs [of Size data] assms]
  by (simp add: undump_dump_text)

text \<open>A state with an open, empty log, for the examples.\<close>

definition start_afp :: afp_world where
  "start_afp = \<lparr>out = [], alloc_ok = (\<lambda>_. True), n_alloc = 0, live = 0, logfile = Some [], total_count = 0,
     tcp_count = 0, udp_count = 0, icmp_count = 0, igmp_count = 0, others_count = 0,
     source = 0, dest = 0, errout = []\<rparr>"

lemma log_open_start_afp [simp]: "log_open start_afp"
  by (simp add: log_open_def start_afp_def)

theorem PrintData_dump_witness:
  "\<exists>t. PrintData [72, 105, 0] 2 start_afp = Inr ((), logged t start_afp) \<and>
     t = dump_text [72, 105] \<and> undump t = [72, 105]"
  using PrintData_dump [of start_afp 2 "[72, 105, 0]"] by simp

end
