(* ===== verification/Afp_Print.thy ===== *)
theory Afp_Print
  imports Afp_Log
begin

text \<open>
  \<^verbatim>\<open>sniff_afpacket/src/source-af-packet.c\<close>: the functions that log the headers of a packet, the text each
  logs, and every way each can end. A header is read through a pointer to the packed struct of the system's headers: \<^verbatim>\<open>struct ethhdr\<close> has 14 bytes,
  \<^verbatim>\<open>struct iphdr\<close> starts with \<^verbatim>\<open>ihl\<close> in the low and \<^verbatim>\<open>version\<close> in the high half of its first byte.
\<close>

section \<open>The printers\<close>

definition show_mac :: "byte list \<Rightarrow> string" where
  "show_mac m =
     show_02X (m ! 0) @ ''-'' @ show_02X (m ! 1) @ ''-'' @ show_02X (m ! 2) @ ''-'' @
     show_02X (m ! 3) @ ''-'' @ show_02X (m ! 4) @ ''-'' @ show_02X (m ! 5)"

definition print_ethernet_header :: "cptr \<Rightarrow> int \<Rightarrow> ('w afp_world_scheme, unit) prog" where
  "print_ethernet_header Buffer Size =
     pbind (flog nl) (\<lambda>_.
     pbind (flog (''Ethernet Header'' @ nl)) (\<lambda>_.
     pbind (lift (readn Buffer 6)) (\<lambda>h_dest.
     pbind (flog (''   |-Destination Address : '' @ show_mac h_dest @ '' '' @ nl)) (\<lambda>_.
     pbind (lift (readn (padd Buffer 6) 6)) (\<lambda>h_source.
     pbind (flog (''   |-Source Address      : '' @ show_mac h_source @ '' '' @ nl)) (\<lambda>_.
     pbind (lift (load16 Buffer 12)) (\<lambda>h_proto.
     flog (''   |-Protocol            : '' @ show_dec (unat h_proto) @ '' '' @ nl))))))))"

definition ihl :: "byte \<Rightarrow> nat" where
  "ihl b = unat (b AND 0x0F)"

text \<open>A line that shows one field of a header.\<close>

definition flog_field :: "string \<Rightarrow> fault + nat \<Rightarrow> string \<Rightarrow> ('w afp_world_scheme, unit) prog" where
  "flog_field label r suffix = pbind (lift r) (\<lambda>v. flog (label @ show_dec v @ suffix @ nl))"

definition byte_field :: "cptr \<Rightarrow> nat \<Rightarrow> fault + nat" where
  "byte_field p i = rbind (rd p i) (\<lambda>b. Inr (unat b))"

definition ntohs_field :: "cptr \<Rightarrow> nat \<Rightarrow> fault + nat" where
  "ntohs_field p i = rbind (load16 p i) (\<lambda>v. Inr (unat (ntohs v)))"

definition ntohl_field :: "cptr \<Rightarrow> nat \<Rightarrow> fault + nat" where
  "ntohl_field p i = rbind (load32 p i) (\<lambda>v. Inr (unat (ntohl v)))"

definition bit_field :: "cptr \<Rightarrow> nat \<Rightarrow> nat \<Rightarrow> fault + nat" where
  "bit_field p i k = rbind (rd p i) (\<lambda>b. Inr (of_bool (bit b k)))"

definition print_ip_header :: "cptr \<Rightarrow> int \<Rightarrow> ('w afp_world_scheme, unit) prog" where
  "print_ip_header Buffer Size =
     (let iph = padd Buffer 14 in
      pbind (print_ethernet_header Buffer Size) (\<lambda>_.
      pbind (lift (load32 iph 12)) (\<lambda>saddr.
      pbind (modify (\<lambda>w. w\<lparr>source := saddr\<rparr>)) (\<lambda>_.
      pbind (lift (load32 iph 16)) (\<lambda>daddr.
      pbind (modify (\<lambda>w. w\<lparr>dest := daddr\<rparr>)) (\<lambda>_.
      pbind (flog nl) (\<lambda>_.
      pbind (flog (''IP Header'' @ nl)) (\<lambda>_.
      pbind (lift (rd iph 0)) (\<lambda>b.
      pbind (flog (''   |-IP Version        : '' @ show_dec (unat (drop_bit 4 b)) @ nl)) (\<lambda>_.
      pbind (flog (''   |-IP Header Length  : '' @ show_dec (ihl b) @ '' DWORDS or '' @ show_dec (ihl b * 4)
               @ '' Bytes'' @ nl)) (\<lambda>_.
      pbind (flog_field ''   |-Type Of Service   : '' (byte_field iph 1) []) (\<lambda>_.
      pbind (flog_field ''   |-IP Total Length   : '' (ntohs_field iph 2) ''  Bytes(Size of Packet)'') (\<lambda>_.
      pbind (flog_field ''   |-Identification    : '' (ntohs_field iph 4) []) (\<lambda>_.
      pbind (flog_field ''   |-TTL      : '' (byte_field iph 8) []) (\<lambda>_.
      pbind (flog_field ''   |-Protocol : '' (byte_field iph 9) []) (\<lambda>_.
      pbind (flog_field ''   |-Checksum : '' (ntohs_field iph 10) []) (\<lambda>_.
      pbind (gets source) (\<lambda>s.
      pbind (flog (''   |-Source IP        : '' @ inet_ntoa s @ nl)) (\<lambda>_.
      pbind (gets dest) (\<lambda>d.
      flog (''   |-Destination IP   : '' @ inet_ntoa d @ nl)))))))))))))))))))))"

definition print_tcp_packet :: "cptr \<Rightarrow> int \<Rightarrow> ('w afp_world_scheme, unit) prog" where
  "print_tcp_packet Buffer Size =
     pbind (lift (rd (padd Buffer 14) 0)) (\<lambda>b.
     let iphdrlen = ihl b * 4; tcph = padd Buffer (iphdrlen + 14) in
     pbind (lift (rd tcph 12)) (\<lambda>off.
     let doff = unat (drop_bit 4 off); header_size = 14 + iphdrlen + doff * 4 in
     pbind (flog (nl @ nl @ ''***********************TCP Packet*************************'' @ nl)) (\<lambda>_.
     pbind (print_ip_header Buffer Size) (\<lambda>_.
     pbind (flog nl) (\<lambda>_.
     pbind (flog (''TCP Header'' @ nl)) (\<lambda>_.
     pbind (flog_field ''   |-Source Port      : '' (ntohs_field tcph 0) []) (\<lambda>_.
     pbind (flog_field ''   |-Destination Port : '' (ntohs_field tcph 2) []) (\<lambda>_.
     pbind (flog_field ''   |-Sequence Number    : '' (ntohl_field tcph 4) []) (\<lambda>_.
     pbind (flog_field ''   |-Acknowledge Number : '' (ntohl_field tcph 8) []) (\<lambda>_.
     pbind (flog (''   |-Header Length      : '' @ show_dec doff @ '' DWORDS or '' @ show_dec (doff * 4)
              @ '' BYTES'' @ nl)) (\<lambda>_.
     pbind (flog_field ''   |-Urgent Flag          : '' (bit_field tcph 13 5) []) (\<lambda>_.
     pbind (flog_field ''   |-Acknowledgement Flag : '' (bit_field tcph 13 4) []) (\<lambda>_.
     pbind (flog_field ''   |-Push Flag            : '' (bit_field tcph 13 3) []) (\<lambda>_.
     pbind (flog_field ''   |-Reset Flag           : '' (bit_field tcph 13 2) []) (\<lambda>_.
     pbind (flog_field ''   |-Synchronise Flag     : '' (bit_field tcph 13 1) []) (\<lambda>_.
     pbind (flog_field ''   |-Finish Flag          : '' (bit_field tcph 13 0) []) (\<lambda>_.
     pbind (flog_field ''   |-Window         : '' (ntohs_field tcph 14) []) (\<lambda>_.
     pbind (flog_field ''   |-Checksum       : '' (ntohs_field tcph 16) []) (\<lambda>_.
     pbind (flog_field ''   |-Urgent Pointer : '' (rbind (load16 tcph 18) (\<lambda>v. Inr (unat v))) []) (\<lambda>_.
     pbind (flog nl) (\<lambda>_.
     pbind (flog ''                        DATA Dump                         '') (\<lambda>_.
     pbind (flog nl) (\<lambda>_.
     pbind (flog (''IP Header'' @ nl)) (\<lambda>_.
     pbind (PrintData Buffer (int iphdrlen)) (\<lambda>_.
     pbind (flog (''TCP Header'' @ nl)) (\<lambda>_.
     pbind (PrintData (padd Buffer iphdrlen) (int (doff * 4))) (\<lambda>_.
     pbind (flog (''Data Payload'' @ nl)) (\<lambda>_.
     pbind (lift (int_sub Size (int header_size))) (\<lambda>payload_size.
     pbind (PrintData (padd Buffer header_size) payload_size) (\<lambda>_.
     flog (nl @ ''###########################################################'')))))))))))))))))))))))))))))))"

definition print_udp_packet :: "cptr \<Rightarrow> int \<Rightarrow> ('w afp_world_scheme, unit) prog" where
  "print_udp_packet Buffer Size =
     pbind (lift (rd (padd Buffer 14) 0)) (\<lambda>b.
     let iphdrlen = ihl b * 4; udph = padd Buffer (iphdrlen + 14); header_size = 14 + iphdrlen + 8 in
     pbind (flog (nl @ nl @ ''***********************UDP Packet*************************'' @ nl)) (\<lambda>_.
     pbind (print_ip_header Buffer Size) (\<lambda>_.
     pbind (flog (nl @ ''UDP Header'' @ nl)) (\<lambda>_.
     pbind (flog_field ''   |-Source Port      : '' (ntohs_field udph 0) []) (\<lambda>_.
     pbind (flog_field ''   |-Destination Port : '' (ntohs_field udph 2) []) (\<lambda>_.
     pbind (flog_field ''   |-UDP Length       : '' (ntohs_field udph 4) []) (\<lambda>_.
     pbind (flog_field ''   |-UDP Checksum     : '' (ntohs_field udph 6) []) (\<lambda>_.
     pbind (flog nl) (\<lambda>_.
     pbind (flog (''IP Header'' @ nl)) (\<lambda>_.
     pbind (PrintData Buffer (int iphdrlen)) (\<lambda>_.
     pbind (flog (''UDP Header'' @ nl)) (\<lambda>_.
     pbind (PrintData (padd Buffer iphdrlen) 8) (\<lambda>_.
     pbind (flog (''Data Payload'' @ nl)) (\<lambda>_.
     pbind (lift (int_sub Size (int header_size))) (\<lambda>payload_size.
     pbind (PrintData (padd Buffer header_size) payload_size) (\<lambda>_.
     flog (nl @ ''###########################################################'')))))))))))))))))"

definition print_icmp_packet :: "cptr \<Rightarrow> int \<Rightarrow> ('w afp_world_scheme, unit) prog" where
  "print_icmp_packet Buffer Size =
     pbind (lift (rd (padd Buffer 14) 0)) (\<lambda>b.
     let iphdrlen = ihl b * 4; icmph = padd Buffer (iphdrlen + 14); header_size = 14 + iphdrlen + 8 in
     pbind (flog (nl @ nl @ ''***********************ICMP Packet*************************'' @ nl)) (\<lambda>_.
     pbind (print_ip_header Buffer Size) (\<lambda>_.
     pbind (flog nl) (\<lambda>_.
     pbind (flog (''ICMP Header'' @ nl)) (\<lambda>_.
     pbind (lift (rd icmph 0)) (\<lambda>ty.
     pbind (flog (''   |-Type : '' @ show_dec (unat ty))) (\<lambda>_.
     pbind (if ty = 11 then flog (''  (TTL Expired)'' @ nl)
            else if ty = 0 then flog (''  (ICMP Echo Reply)'' @ nl)
            else ret ()) (\<lambda>_.
     pbind (flog_field ''   |-Code : '' (byte_field icmph 1) []) (\<lambda>_.
     pbind (flog_field ''   |-Checksum : '' (ntohs_field icmph 2) []) (\<lambda>_.
     pbind (flog nl) (\<lambda>_.
     pbind (flog (''IP Header'' @ nl)) (\<lambda>_.
     pbind (PrintData Buffer (int iphdrlen)) (\<lambda>_.
     pbind (flog (''UDP Header'' @ nl)) (\<lambda>_.
     pbind (PrintData (padd Buffer iphdrlen) 8) (\<lambda>_.
     pbind (flog (''Data Payload'' @ nl)) (\<lambda>_.
     pbind (lift (int_sub Size (int header_size))) (\<lambda>payload_size.
     pbind (PrintData (padd Buffer header_size) payload_size) (\<lambda>_.
     flog (nl @ ''###########################################################'')))))))))))))))))))"

section \<open>The texts\<close>

text \<open>
  What each printer logs of a buffer, as a function of the bytes at fixed offsets. The header values
  are in network byte order, except the two the code does not convert: the Ethernet type and the
  urgent pointer.
\<close>

definition field_line :: "string \<Rightarrow> nat \<Rightarrow> string \<Rightarrow> string" where
  "field_line label v suffix = label @ show_dec v @ suffix @ nl"

definition net16 :: "cptr \<Rightarrow> nat \<Rightarrow> nat" where
  "net16 p i = 256 * unat (p ! i) + unat (p ! (i + 1))"

definition net32 :: "cptr \<Rightarrow> nat \<Rightarrow> nat" where
  "net32 p i = 65536 * net16 p i + net16 p (i + 2)"

definition host16 :: "cptr \<Rightarrow> nat \<Rightarrow> nat" where
  "host16 p i = 256 * unat (p ! (i + 1)) + unat (p ! i)"

definition ip_text :: "cptr \<Rightarrow> nat \<Rightarrow> string" where
  "ip_text p i =
     show_dec (unat (p ! i)) @ ''.'' @ show_dec (unat (p ! (i + 1))) @ ''.'' @
     show_dec (unat (p ! (i + 2))) @ ''.'' @ show_dec (unat (p ! (i + 3)))"

definition ip_len :: "cptr \<Rightarrow> nat" where
  "ip_len p = 4 * (unat (p ! 14) mod 16)"

definition ether_log :: "cptr \<Rightarrow> string" where
  "ether_log p =
     nl @ ''Ethernet Header'' @ nl @
     ''   |-Destination Address : '' @ show_mac (take 6 p) @ '' '' @ nl @
     ''   |-Source Address      : '' @ show_mac (take 6 (drop 6 p)) @ '' '' @ nl @
     field_line ''   |-Protocol            : '' (host16 p 12) '' ''"

definition ip_log :: "cptr \<Rightarrow> string" where
  "ip_log p =
     ether_log p @ nl @ ''IP Header'' @ nl @
     field_line ''   |-IP Version        : '' (unat (p ! 14) div 16) [] @
     ''   |-IP Header Length  : '' @ show_dec (unat (p ! 14) mod 16) @ '' DWORDS or '' @ show_dec (ip_len p) @
       '' Bytes'' @ nl @
     field_line ''   |-Type Of Service   : '' (unat (p ! 15)) [] @
     field_line ''   |-IP Total Length   : '' (net16 p 16) ''  Bytes(Size of Packet)'' @
     field_line ''   |-Identification    : '' (net16 p 18) [] @
     field_line ''   |-TTL      : '' (unat (p ! 22)) [] @
     field_line ''   |-Protocol : '' (unat (p ! 23)) [] @
     field_line ''   |-Checksum : '' (net16 p 24) [] @
     ''   |-Source IP        : '' @ ip_text p 26 @ nl @
     ''   |-Destination IP   : '' @ ip_text p 30 @ nl"

section \<open>The printers against the texts\<close>

lemma logs_field: "r = Inr v \<Longrightarrow> logs (flog_field label r suffix) (field_line label v suffix)"
  unfolding flog_field_def field_line_def by (rule logs_lift, assumption, rule logs_flog)

lemma byte_field_eq: "i < length p \<Longrightarrow> byte_field p i = Inr (unat (p ! i))"
  by (simp add: byte_field_def)

lemma bit_field_eq: "i < length p \<Longrightarrow> bit_field p i k = Inr (of_bool (bit (p ! i) k))"
  by (simp add: bit_field_def)

lemma unat_be2_stored: "unat (ucast (be2 a b) :: u16) = 256 * unat a + unat b"
  using be2_unat [of a b] be2_less [of a b] by (simp add: unsigned_ucast_eq take_bit_nat_eq_self)

lemma le2_be2: "le2 a b = ucast (be2 b a)"
  by (rule bit_word_eqI) (auto simp: le2_def be2_def bit_simps)

lemma unat_le2: "unat (le2 a b) = 256 * unat b + unat a"
  by (simp only: le2_be2 unat_be2_stored)

lemma ntohs_field_eq: "i + 1 < length p \<Longrightarrow> ntohs_field p i = Inr (net16 p i)"
  by (simp only: ntohs_field_def load16_eq rbind.simps ntohs_le2 unat_be2_stored net16_def)

lemma raw_field_eq: "i + 1 < length p \<Longrightarrow> rbind (load16 p i) (\<lambda>v. Inr (unat v)) = Inr (host16 p i)"
  by (simp only: load16_eq rbind.simps unat_le2 host16_def)

lemma ntohl_field_eq: "i + 3 < length p \<Longrightarrow> ntohl_field p i = Inr (net32 p i)"
  by (simp only: ntohl_field_def load32_eq rbind.simps ntohl_le4 be4_unat net32_def net16_def)
    (simp add: numeral_3_eq_3 numeral_2_eq_2)

lemma ihl_eq: "ihl b = unat b mod 16"
proof -
  have "b AND 0x0F = b mod 16"
    using take_bit_eq_mask [of 4 b] take_bit_eq_mod [of 4 b] by (simp add: mask_eq_exp_minus_1)
  then show ?thesis by (simp only: ihl_def unat_mod_distrib) simp
qed

lemma high_half: "unat (drop_bit 4 b) = unat b div 16" for b :: byte
  by (simp add: drop_bit_eq_div unat_div_distrib)

lemma ihl_less: "ihl b < 16"
  by (simp add: ihl_eq)

text \<open>The state after the addresses of a packet have been stored in the globals.\<close>

definition addressed :: "cptr \<Rightarrow> 'w afp_world_scheme \<Rightarrow> 'w afp_world_scheme" where
  "addressed p w = w\<lparr>source := le4 (p ! 26) (p ! 27) (p ! 28) (p ! 29),
                     dest := le4 (p ! 30) (p ! 31) (p ! 32) (p ! 33)\<rparr>"

lemma log_open_addressed [simp]: "log_open (addressed p w) = log_open w"
  by (simp add: log_open_def addressed_def)

lemma addressed_logged: "addressed p (logged s w) = logged s (addressed p w)"
  by (simp add: addressed_def logged_def)

lemma pbind_logs: "logs m t \<Longrightarrow> log_open w \<Longrightarrow> pbind m f w = f () (logged t w)"
  by (simp add: logs_def pbind_step)

lemma print_ethernet_header_logs:
  assumes "14 \<le> length p"
  shows "logs (print_ethernet_header p n) (ether_log p)"
proof -
  have r: "readn p 6 = Inr (take 6 p)" "readn (padd p 6) 6 = Inr (take 6 (drop 6 p))"
    "load16 p 12 = Inr (le2 (p ! 12) (p ! 13))"
    using assms by (simp_all add: readn_eq padd_def load16_eq)
  show ?thesis
    unfolding print_ethernet_header_def
    by (rule logs_cong, (rule logs_intros r)+)
      (simp only: ether_log_def field_line_def host16_def unat_le2 append_assoc one_add_one numeral_plus_one semiring_norm)
qed

text \<open>A program that logs \<open>t\<close> and stores the addresses of the packet.\<close>

definition logs_ip :: "cptr \<Rightarrow> ('w afp_world_scheme, unit) prog \<Rightarrow> string \<Rightarrow> bool" where
  "logs_ip p m t \<longleftrightarrow> (\<forall>w. log_open w \<longrightarrow> m w = Inr ((), logged t (addressed p w)))"

lemma print_ip_header_logs:
  assumes "34 \<le> length p"
  shows "logs_ip p (print_ip_header p n) (ip_log p)"
proof -
  let ?q = "padd p 14"
  have r: "load32 ?q 12 = Inr (le4 (p ! 26) (p ! 27) (p ! 28) (p ! 29))"
    "load32 ?q 16 = Inr (le4 (p ! 30) (p ! 31) (p ! 32) (p ! 33))" "rd ?q 0 = Inr (p ! 14)"
    using assms by (simp_all add: load32_eq)
  have f: "byte_field ?q 1 = Inr (unat (p ! 15))" "ntohs_field ?q 2 = Inr (net16 p 16)"
    "ntohs_field ?q 4 = Inr (net16 p 18)" "byte_field ?q 8 = Inr (unat (p ! 22))"
    "byte_field ?q 9 = Inr (unat (p ! 23))" "ntohs_field ?q 10 = Inr (net16 p 24)"
    using assms by (simp_all add: byte_field_eq ntohs_field_eq net16_def)
  have eth: "logs (print_ethernet_header p n) (ether_log p)"
    using assms by (intro print_ethernet_header_logs) simp
  have upd: "logged s w\<lparr>source := a\<rparr> = logged s (w\<lparr>source := a\<rparr>)" "logged s w\<lparr>dest := a\<rparr> = logged s (w\<lparr>dest := a\<rparr>)"
    "source (logged s w) = source w" "dest (logged s w) = dest w"
    "log_open (w\<lparr>source := a\<rparr>) = log_open w" "log_open (w\<lparr>dest := a\<rparr>) = log_open w"
    for s a and w :: "'a afp_world_scheme"
    by (simp_all add: logged_def log_open_def)
  show ?thesis
    unfolding logs_ip_def print_ip_header_def Let_def r lift_Inr pbind_ret f flog_field_def ip_log_def
      field_line_def addressed_def inet_ntoa_le4 ip_text_def
    by (simp add: pbind_logs [OF eth] upd inet_ntoa_le4 ihl_eq high_half ip_len_def mult.commute)
qed

section \<open>Packets\<close>

definition l4 :: "cptr \<Rightarrow> nat" where
  "l4 p = ip_len p + 14"

definition doff :: "cptr \<Rightarrow> nat" where
  "doff p = unat (p ! (l4 p + 12)) div 16"

text \<open>The three dumps at the end: the code takes \<open>h\<close> bytes for the transport header.\<close>

definition dumps :: "string \<Rightarrow> cptr \<Rightarrow> nat \<Rightarrow> int \<Rightarrow> string" where
  "dumps label p h Size =
     ''IP Header'' @ nl @ dump_text (take (ip_len p) p) @
     label @ nl @ dump_text (take h (drop (ip_len p) p)) @
     ''Data Payload'' @ nl @ dump_text (take (nat (Size - int (l4 p + h))) (drop (l4 p + h) p)) @
     nl @ ''###########################################################''"

definition tcp_head :: "cptr \<Rightarrow> string" where
  "tcp_head p =
     (let t = l4 p in
      nl @ nl @ ''***********************TCP Packet*************************'' @ nl @ ip_log p @
      nl @ ''TCP Header'' @ nl @
      field_line ''   |-Source Port      : '' (net16 p t) [] @
      field_line ''   |-Destination Port : '' (net16 p (t + 2)) [] @
      field_line ''   |-Sequence Number    : '' (net32 p (t + 4)) [] @
      field_line ''   |-Acknowledge Number : '' (net32 p (t + 8)) [] @
      ''   |-Header Length      : '' @ show_dec (doff p) @ '' DWORDS or '' @ show_dec (doff p * 4) @ '' BYTES'' @ nl @
      field_line ''   |-Urgent Flag          : '' (of_bool (bit (p ! (t + 13)) 5)) [] @
      field_line ''   |-Acknowledgement Flag : '' (of_bool (bit (p ! (t + 13)) 4)) [] @
      field_line ''   |-Push Flag            : '' (of_bool (bit (p ! (t + 13)) 3)) [] @
      field_line ''   |-Reset Flag           : '' (of_bool (bit (p ! (t + 13)) 2)) [] @
      field_line ''   |-Synchronise Flag     : '' (of_bool (bit (p ! (t + 13)) 1)) [] @
      field_line ''   |-Finish Flag          : '' (of_bool (bit (p ! (t + 13)) 0)) [] @
      field_line ''   |-Window         : '' (net16 p (t + 14)) [] @
      field_line ''   |-Checksum       : '' (net16 p (t + 16)) [] @
      field_line ''   |-Urgent Pointer : '' (host16 p (t + 18)) [] @
      nl @ ''                        DATA Dump                         '' @ nl)"

definition tcp_log :: "cptr \<Rightarrow> int \<Rightarrow> string" where
  "tcp_log p Size = tcp_head p @ dumps ''TCP Header'' p (4 * doff p) Size"

definition udp_head :: "cptr \<Rightarrow> string" where
  "udp_head p =
     (let t = l4 p in
      nl @ nl @ ''***********************UDP Packet*************************'' @ nl @ ip_log p @
      nl @ ''UDP Header'' @ nl @
      field_line ''   |-Source Port      : '' (net16 p t) [] @
      field_line ''   |-Destination Port : '' (net16 p (t + 2)) [] @
      field_line ''   |-UDP Length       : '' (net16 p (t + 4)) [] @
      field_line ''   |-UDP Checksum     : '' (net16 p (t + 6)) [] @
      nl)"

definition udp_log :: "cptr \<Rightarrow> int \<Rightarrow> string" where
  "udp_log p Size = udp_head p @ dumps ''UDP Header'' p 8 Size"

definition icmp_head :: "cptr \<Rightarrow> string" where
  "icmp_head p =
     (let t = l4 p in
      nl @ nl @ ''***********************ICMP Packet*************************'' @ nl @ ip_log p @
      nl @ ''ICMP Header'' @ nl @
      ''   |-Type : '' @ show_dec (unat (p ! t)) @
      (if p ! t = 11 then ''  (TTL Expired)'' @ nl else if p ! t = 0 then ''  (ICMP Echo Reply)'' @ nl else []) @
      field_line ''   |-Code : '' (unat (p ! (t + 1))) [] @
      field_line ''   |-Checksum : '' (net16 p (t + 2)) [] @
      nl)"

definition icmp_log :: "cptr \<Rightarrow> int \<Rightarrow> string" where
  "icmp_log p Size = icmp_head p @ dumps ''UDP Header'' p 8 Size"

lemma net16_padd: "i + 1 < length (padd p k) \<Longrightarrow> net16 (padd p k) i = net16 p (k + i)"
  by (simp add: net16_def)

lemma net32_padd: "i + 3 < length (padd p k) \<Longrightarrow> net32 (padd p k) i = net32 p (k + i)"
  by (simp add: net32_def net16_padd)

lemma host16_padd: "i + 1 < length (padd p k) \<Longrightarrow> host16 (padd p k) i = host16 p (k + i)"
  by (simp add: host16_def)

lemma PrintData_run:
  "log_open w \<Longrightarrow> PrintData data n w =
     (if nat n \<le> length data then Inr ((), logged (dump_text (take (nat n) data)) w) else Inl OutOfBounds)"
  by (cases "nat n \<le> length data") (simp_all add: PrintData_over logs_run [OF PrintData_logs])

text \<open>What all three printers end with, for \<open>h\<close> bytes of transport header.\<close>

definition dump_parts :: "string \<Rightarrow> cptr \<Rightarrow> nat \<Rightarrow> int \<Rightarrow> ('w afp_world_scheme, unit) prog" where
  "dump_parts label p h Size =
     pbind (flog (''IP Header'' @ nl)) (\<lambda>_.
     pbind (PrintData p (int (ip_len p))) (\<lambda>_.
     pbind (flog (label @ nl)) (\<lambda>_.
     pbind (PrintData (padd p (ip_len p)) (int h)) (\<lambda>_.
     pbind (flog (''Data Payload'' @ nl)) (\<lambda>_.
     pbind (lift (int_sub Size (int (l4 p + h)))) (\<lambda>n.
     pbind (PrintData (padd p (l4 p + h)) n) (\<lambda>_.
     flog (nl @ ''###########################################################''))))))))"

text \<open>How the end of a printer can end, by the size of the buffer and the value of \<open>Size\<close>.\<close>

definition dumped :: "string \<Rightarrow> cptr \<Rightarrow> nat \<Rightarrow> int \<Rightarrow> fault + string" where
  "dumped label p h Size =
     (if length p < ip_len p + h then Inl OutOfBounds
      else if Size < INT_MIN + int (l4 p + h) then Inl SignedOverflow
      else if int (length p) < Size \<and> int (l4 p + h) < Size then Inl OutOfBounds
      else Inr (dumps label p h Size))"

lemma int_sub_eq:
  "Size \<le> INT_MAX \<Longrightarrow> int_sub Size (int n) = (if Size < INT_MIN + int n then Inl SignedOverflow else Inr (Size - int n))"
  by (auto simp: int_sub_def)

lemma payload_fits: "nat (Size - int n) \<le> length (padd p n) \<longleftrightarrow> \<not> (int (length p) < Size \<and> int n < Size)"
  by auto

lemma dump_parts_run:
  assumes "log_open w" and "ip_len p \<le> length p" and "Size \<le> INT_MAX"
  shows "dump_parts label p h Size w =
    (case dumped label p h Size of Inl e \<Rightarrow> Inl e | Inr t \<Rightarrow> Inr ((), logged t w))"
proof -
  have ip: "PrintData p (int (ip_len p)) v = Inr ((), logged (dump_text (take (ip_len p) p)) v)"
    if "log_open v" for v :: "'a afp_world_scheme"
    using that assms(2) by (simp add: PrintData_run)
  have "h \<le> length p - ip_len p \<longleftrightarrow> \<not> length p < ip_len p + h" using assms(2) by linarith
  then show ?thesis
    using assms(1) unfolding dump_parts_def dumped_def dumps_def int_sub_eq [OF assms(3)]
    by (simp add: pbind_def ip PrintData_run payload_fits del: length_padd)
       (auto simp: padd_def)
qed

section \<open>Following a printer\<close>

text \<open>
  A program that, with an open log, logs \<open>t\<close> and goes on as \<open>m'\<close>; and one that also stores the
  addresses of the packet first.
\<close>

definition follows :: "('w afp_world_scheme, unit) prog \<Rightarrow> string \<Rightarrow> ('w afp_world_scheme, unit) prog \<Rightarrow> bool" where
  "follows m t m' \<longleftrightarrow> (\<forall>w. log_open w \<longrightarrow> m w = m' (logged t w))"

definition starts :: "cptr \<Rightarrow> ('w afp_world_scheme, unit) prog \<Rightarrow> string \<Rightarrow> ('w afp_world_scheme, unit) prog \<Rightarrow> bool" where
  "starts p m t m' \<longleftrightarrow> (\<forall>w. log_open w \<longrightarrow> m w = m' (logged t (addressed p w)))"

lemma follows_dumps: "follows (dump_parts label p h Size) [] (dump_parts label p h Size)"
  by (simp add: follows_def)

lemma follows_bind: "logs m s \<Longrightarrow> follows (f ()) t m' \<Longrightarrow> follows (pbind m f) (s @ t) m'"
  by (simp add: follows_def pbind_logs)

lemma follows_lift: "r = Inr b \<Longrightarrow> follows (f b) t m' \<Longrightarrow> follows (pbind (lift r) f) t m'"
  by simp

lemma starts_after: "logs m s \<Longrightarrow> starts p (f ()) t m' \<Longrightarrow> starts p (pbind m f) (s @ t) m'"
  by (simp add: starts_def pbind_logs addressed_logged)

lemma starts_ip: "logs_ip p m s \<Longrightarrow> follows (f ()) t m' \<Longrightarrow> starts p (pbind m f) (s @ t) m'"
  by (simp add: starts_def follows_def logs_ip_def pbind_step)

lemma starts_cong: "starts p m s m' \<Longrightarrow> s = t \<Longrightarrow> starts p m t m'"
  by simp

lemma starts_run:
  assumes "starts p m t (dump_parts label p h Size)" and "log_open w" and "ip_len p \<le> length p" and "Size \<le> INT_MAX"
  shows "m w = (case dumped label p h Size of Inl e \<Rightarrow> Inl e | Inr t' \<Rightarrow> Inr ((), logged (t @ t') (addressed p w)))"
  using assms by (simp add: starts_def dump_parts_run split: sum.split)

text \<open>The length of the IP header, as the printers compute it.\<close>

lemma ip_len_eqs:
  "ihl (p ! 14) * 4 = ip_len p" "ip_len p + 14 = l4 p" "14 + ip_len p = l4 p"
  by (simp_all add: ihl_eq ip_len_def l4_def mult.commute)

lemma doff_eq: "unat (drop_bit 4 (p ! (l4 p + 12))) = doff p"
  by (simp add: doff_def high_half)

lemma field_of_packet:
  "i + 1 < length (padd p k) \<Longrightarrow> ntohs_field (padd p k) i = Inr (net16 p (k + i))"
  "i + 3 < length (padd p k) \<Longrightarrow> ntohl_field (padd p k) i = Inr (net32 p (k + i))"
  "i + 1 < length (padd p k) \<Longrightarrow> rbind (load16 (padd p k) i) (\<lambda>v. Inr (unat v)) = Inr (host16 p (k + i))"
  by (simp_all only: ntohs_field_eq ntohl_field_eq raw_field_eq net16_padd net32_padd host16_padd)

lemma print_tcp_packet_starts:
  assumes "l4 p + 20 \<le> length p"
  shows "starts p (print_tcp_packet p Size) (tcp_head p) (dump_parts ''TCP Header'' p (4 * doff p) Size)"
proof -
  let ?t = "padd p (l4 p)"
  have long: "34 \<le> length p" "20 \<le> length ?t" using assms by (simp_all add: l4_def)
  have r: "rd (padd p 14) 0 = Inr (p ! 14)" "rd ?t 12 = Inr (p ! (l4 p + 12))"
    using long by simp_all
  have fs: "ntohs_field ?t 0 = Inr (net16 p (l4 p))" "ntohs_field ?t 2 = Inr (net16 p (l4 p + 2))"
    "ntohl_field ?t 4 = Inr (net32 p (l4 p + 4))" "ntohl_field ?t 8 = Inr (net32 p (l4 p + 8))"
    "ntohs_field ?t 14 = Inr (net16 p (l4 p + 14))" "ntohs_field ?t 16 = Inr (net16 p (l4 p + 16))"
    "rbind (load16 ?t 18) (\<lambda>v. Inr (unat v)) = Inr (host16 p (l4 p + 18))"
    using long by (simp_all add: field_of_packet)
  have b: "bit_field ?t 13 k = Inr (of_bool (bit (p ! (l4 p + 13)) k))" for k
    using long by (simp add: bit_field_eq)
  show ?thesis
    unfolding print_tcp_packet_def Let_def ip_len_eqs r lift_Inr pbind_ret doff_eq
    unfolding mult.commute [of _ "4 :: nat"]
    unfolding dump_parts_def [of "''TCP Header''" p "4 * doff p" Size, symmetric]
    by (rule starts_cong, rule starts_after, rule logs_flog, rule starts_ip,
        rule print_ip_header_logs, rule long, (rule follows_dumps follows_bind logs_flog logs_field fs b)+)
      (simp only: tcp_head_def Let_def append_assoc append_Nil2 mult.commute [of _ "4 :: nat"])
qed

lemma print_udp_packet_starts:
  assumes "l4 p + 8 \<le> length p" and "34 \<le> length p"
  shows "starts p (print_udp_packet p Size) (udp_head p) (dump_parts ''UDP Header'' p 8 Size)"
proof -
  let ?u = "padd p (l4 p)"
  have r: "rd (padd p 14) 0 = Inr (p ! 14)" using assms(2) by simp
  have fs: "ntohs_field ?u 0 = Inr (net16 p (l4 p))" "ntohs_field ?u 2 = Inr (net16 p (l4 p + 2))"
    "ntohs_field ?u 4 = Inr (net16 p (l4 p + 4))" "ntohs_field ?u 6 = Inr (net16 p (l4 p + 6))"
    using assms(1) by (simp_all add: field_of_packet)
  show ?thesis
    unfolding print_udp_packet_def Let_def ip_len_eqs r lift_Inr pbind_ret
    unfolding dump_parts_def [of "''UDP Header''" p 8 Size, unfolded of_nat_numeral, symmetric]
    by (rule starts_cong, rule starts_after, rule logs_flog, rule starts_ip,
        rule print_ip_header_logs, rule assms(2), (rule follows_dumps follows_bind logs_flog logs_field fs)+)
      (simp only: udp_head_def Let_def append_assoc append_Nil2)
qed

lemma print_icmp_packet_starts:
  assumes "l4 p + 4 \<le> length p" and "34 \<le> length p"
  shows "starts p (print_icmp_packet p Size) (icmp_head p) (dump_parts ''UDP Header'' p 8 Size)"
proof -
  let ?u = "padd p (l4 p)"
  have r: "rd (padd p 14) 0 = Inr (p ! 14)" using assms(2) by simp
  have fs: "rd ?u 0 = Inr (p ! l4 p)" "byte_field ?u 1 = Inr (unat (p ! (l4 p + 1)))"
    "ntohs_field ?u 2 = Inr (net16 p (l4 p + 2))"
    using assms(1) by (simp_all add: byte_field_eq field_of_packet)
  show ?thesis
    unfolding print_icmp_packet_def Let_def ip_len_eqs r lift_Inr pbind_ret
    unfolding dump_parts_def [of "''UDP Header''" p 8 Size, unfolded of_nat_numeral, symmetric]
    by (rule starts_cong, rule starts_after, rule logs_flog, rule starts_ip,
        rule print_ip_header_logs, rule assms(2),
        (rule follows_dumps follows_lift fs follows_bind logs_flog logs_ret logs_if logs_field)+)
      (simp only: icmp_head_def Let_def append_assoc append_Nil2)
qed

section \<open>Reading past the buffer\<close>

text \<open>Programs that, with an open log, can only stop at a read out of bounds; and that must.\<close>

definition only_reads :: "('w afp_world_scheme, 'a) prog \<Rightarrow> bool" where
  "only_reads m \<longleftrightarrow> (\<forall>w. log_open w \<longrightarrow> (case m w of Inl e \<Rightarrow> e = OutOfBounds | Inr (_, w') \<Rightarrow> log_open w'))"

definition over_reads :: "('w afp_world_scheme, 'a) prog \<Rightarrow> bool" where
  "over_reads m \<longleftrightarrow> (\<forall>w. log_open w \<longrightarrow> m w = Inl OutOfBounds)"

named_theorems only_reads_intros

lemma only_reads_run:
  assumes "only_reads m" and "log_open w"
  obtains "m w = Inl OutOfBounds" | a w' where "m w = Inr (a, w')" and "log_open w'"
  using assms by (cases "m w") (auto simp: only_reads_def dest: spec [of _ w])

lemma only_reads_bind [only_reads_intros]:
  assumes "only_reads m" and "\<And>a. only_reads (f a)"
  shows "only_reads (pbind m f)"
  unfolding only_reads_def
proof (intro allI impI)
  fix w :: "'a afp_world_scheme"
  assume "log_open w"
  with assms(1) show "case pbind m f w of Inl e \<Rightarrow> e = OutOfBounds | Inr (_, w') \<Rightarrow> log_open w'"
  proof (cases rule: only_reads_run)
    case 1
    then show ?thesis by (simp add: pbind_fault)
  next
    case (2 a w')
    then show ?thesis using assms(2) [of a] by (simp add: pbind_step only_reads_def)
  qed
qed

lemma only_reads_basic [only_reads_intros]:
  "only_reads (flog s)" "only_reads (ret a)" "only_reads (gets g)"
  "only_reads (modify (\<lambda>w. w\<lparr>source := s'\<rparr>))" "only_reads (modify (\<lambda>w. w\<lparr>dest := s'\<rparr>))"
  by (simp_all add: only_reads_def modify_def gets_def) (simp_all add: log_open_def)

lemma only_reads_lift [only_reads_intros]:
  "only_reads (lift (rd p i))" "only_reads (lift (readn p i))" "only_reads (lift (load16 p i))" "only_reads (lift (load32 p i))"
  by (auto simp: only_reads_def lift_def rd_def readn_eq load16_def load32_def split: sum.split)

lemma only_reads_if [only_reads_intros]: "only_reads m \<Longrightarrow> only_reads m' \<Longrightarrow> only_reads (if c then m else m')"
  by simp

lemma lift_rbind: "lift (rbind r g) = pbind (lift r) (\<lambda>a. lift (g a))"
  by (cases r) simp_all

lemma field_reads:
  "flog_field label (byte_field p i) s = pbind (lift (rd p i)) (\<lambda>v. flog (label @ show_dec (unat v) @ s @ nl))"
  "flog_field label (bit_field p i k) s = pbind (lift (rd p i)) (\<lambda>v. flog (label @ show_dec (of_bool (bit v k)) @ s @ nl))"
  "flog_field label (ntohs_field p i) s = pbind (lift (load16 p i)) (\<lambda>v. flog (label @ show_dec (unat (ntohs v)) @ s @ nl))"
  "flog_field label (ntohl_field p i) s = pbind (lift (load32 p i)) (\<lambda>v. flog (label @ show_dec (unat (ntohl v)) @ s @ nl))"
  "flog_field label (rbind (load16 p i) (\<lambda>v. Inr (unat v))) s =
     pbind (lift (load16 p i)) (\<lambda>v. flog (label @ show_dec (unat v) @ s @ nl))"
  by (simp_all add: flog_field_def byte_field_def bit_field_def ntohs_field_def ntohl_field_def lift_rbind pbind_assoc)

lemma only_reads_field [only_reads_intros]:
  "only_reads (flog_field label (byte_field p i) s)" "only_reads (flog_field label (bit_field p i k) s)"
  "only_reads (flog_field label (ntohs_field p i) s)" "only_reads (flog_field label (ntohl_field p i) s)"
  unfolding field_reads by (intro only_reads_intros)+

lemma only_reads_ip [only_reads_intros]: "only_reads (print_ip_header p n)"
  unfolding print_ip_header_def print_ethernet_header_def Let_def by (intro only_reads_intros)

lemma over_reads_run: "over_reads m \<Longrightarrow> log_open w \<Longrightarrow> m w = Inl OutOfBounds"
  by (simp add: over_reads_def)

lemma over_reads_here: "over_reads m \<Longrightarrow> over_reads (pbind m f)"
  by (simp add: over_reads_def pbind_fault)

lemma over_reads_later:
  assumes "only_reads m" and "\<And>a. over_reads (f a)"
  shows "over_reads (pbind m f)"
  unfolding over_reads_def
proof (intro allI impI)
  fix w :: "'a afp_world_scheme"
  assume "log_open w"
  with assms(1) show "pbind m f w = Inl OutOfBounds"
    by (cases rule: only_reads_run) (use assms(2) in \<open>simp_all add: pbind_fault pbind_step over_reads_def\<close>)
qed

lemma over_reads_lift: "r = Inl OutOfBounds \<Longrightarrow> over_reads (lift r)"
  by (simp add: over_reads_def)

lemma load_short:
  "length p < i + 2 \<Longrightarrow> load16 p i = Inl OutOfBounds" "length p < i + 4 \<Longrightarrow> load32 p i = Inl OutOfBounds"
  unfolding load16_def load32_def by (auto simp: rd_def)

lemma print_tcp_packet_short:
  assumes "length p < l4 p + 20"
  shows "over_reads (print_tcp_packet p Size)"
proof (cases "14 < length p")
  case False
  then have "rd (padd p 14) 0 = Inl OutOfBounds" by simp
  then show ?thesis
    unfolding print_tcp_packet_def by (intro over_reads_here over_reads_lift)
next
  case True
  then have r: "rd (padd p 14) 0 = Inr (p ! 14)" by simp
  have "length (padd p (l4 p)) < 18 + 2" using assms by simp
  from load_short(1) [OF this]
  have u: "over_reads (pbind (lift (load16 (padd p (l4 p)) 18)) f)" for f :: "u16 \<Rightarrow> ('a afp_world_scheme, unit) prog"
    by (intro over_reads_here over_reads_lift)
  show ?thesis
    unfolding print_tcp_packet_def Let_def ip_len_eqs r lift_Inr pbind_ret
    by (rule over_reads_later, rule only_reads_intros)
      ((rule over_reads_here, subst field_reads, rule u | rule over_reads_later, rule only_reads_intros)+)
qed

lemma print_ip_header_short:
  assumes "length p < 34"
  shows "over_reads (print_ip_header p n)"
proof -
  have "length (padd p 14) < 16 + 4" using assms by simp
  from load_short(2) [OF this] have d: "over_reads (lift (load32 (padd p 14) 16))" by (rule over_reads_lift)
  have e: "only_reads (print_ethernet_header p n)"
    unfolding print_ethernet_header_def by (intro only_reads_intros)
  show ?thesis
    unfolding print_ip_header_def Let_def
    by (rule over_reads_later, rule e, rule over_reads_later, rule only_reads_intros,
        rule over_reads_later, rule only_reads_intros, rule over_reads_here, rule d)
qed

lemma print_udp_packet_short:
  assumes "length p < l4 p + 8 \<or> length p < 34"
  shows "over_reads (print_udp_packet p Size)"
proof -
  consider "length p \<le> 14" | "14 < length p" "length p < 34" | "34 \<le> length p" "length p < l4 p + 8"
    using assms by linarith
  then show ?thesis
  proof cases
    case 1
    then have "rd (padd p 14) 0 = Inl OutOfBounds" by simp
    then show ?thesis unfolding print_udp_packet_def by (intro over_reads_here over_reads_lift)
  next
    case 2
    then have r: "rd (padd p 14) 0 = Inr (p ! 14)" by simp
    show ?thesis
      unfolding print_udp_packet_def Let_def r lift_Inr pbind_ret
      by (rule over_reads_later, rule only_reads_intros, rule over_reads_here, rule print_ip_header_short, rule 2)
  next
    case 3
    then have r: "rd (padd p 14) 0 = Inr (p ! 14)" and "length (padd p (l4 p)) < 6 + 2" by simp_all
    from load_short(1) [OF this(2)]
    have u: "over_reads (flog_field label (ntohs_field (padd p (l4 p)) 6) s)" for label s
      unfolding field_reads by (intro over_reads_here over_reads_lift)
    show ?thesis
      unfolding print_udp_packet_def Let_def ip_len_eqs r lift_Inr pbind_ret
      by (rule over_reads_later, rule only_reads_intros)
        ((rule over_reads_here, rule u | rule over_reads_later, rule only_reads_intros)+)
  qed
qed

lemma print_icmp_packet_short:
  assumes "length p < l4 p + 4 \<or> length p < 34"
  shows "over_reads (print_icmp_packet p Size)"
proof -
  consider "length p \<le> 14" | "14 < length p" "length p < 34" | "34 \<le> length p" "length p < l4 p + 4"
    using assms by linarith
  then show ?thesis
  proof cases
    case 1
    then have "rd (padd p 14) 0 = Inl OutOfBounds" by simp
    then show ?thesis unfolding print_icmp_packet_def by (intro over_reads_here over_reads_lift)
  next
    case 2
    then have r: "rd (padd p 14) 0 = Inr (p ! 14)" by simp
    show ?thesis
      unfolding print_icmp_packet_def Let_def r lift_Inr pbind_ret
      by (rule over_reads_later, rule only_reads_intros, rule over_reads_here, rule print_ip_header_short, rule 2)
  next
    case 3
    then have r: "rd (padd p 14) 0 = Inr (p ! 14)" and "length (padd p (l4 p)) < 2 + 2" by simp_all
    from load_short(1) [OF this(2)]
    have u: "over_reads (flog_field label (ntohs_field (padd p (l4 p)) 2) s)" for label s
      unfolding field_reads by (intro over_reads_here over_reads_lift)
    show ?thesis
      unfolding print_icmp_packet_def Let_def ip_len_eqs r lift_Inr pbind_ret
      by (rule over_reads_later, rule only_reads_intros)
        ((rule over_reads_here, rule u | rule over_reads_later, (intro only_reads_intros)[1])+)
  qed
qed

section \<open>Every outcome\<close>

lemma print_tcp_packet_run:
  assumes "log_open w" and "Size \<le> INT_MAX"
  shows "print_tcp_packet p Size (w :: 'a afp_world_scheme) =
    (if length p < l4 p + 20 \<or> length p < ip_len p + 4 * doff p then Inl OutOfBounds
     else if Size < INT_MIN + int (l4 p + 4 * doff p) then Inl SignedOverflow
     else if int (length p) < Size \<and> int (l4 p + 4 * doff p) < Size then Inl OutOfBounds
     else Inr ((), logged (tcp_log p Size) (addressed p w)))"
proof (cases "length p < l4 p + 20")
  case True
  then show ?thesis using over_reads_run [OF print_tcp_packet_short [OF True] assms(1)] by simp
next
  case False
  then have "l4 p + 20 \<le> length p" "ip_len p \<le> length p" by (simp_all add: l4_def)
  with False show ?thesis
    using starts_run [OF print_tcp_packet_starts assms(1) _ assms(2)] by (simp add: dumped_def tcp_log_def)
qed

lemma print_udp_packet_run:
  assumes "log_open w" and "Size \<le> INT_MAX"
  shows "print_udp_packet p Size (w :: 'a afp_world_scheme) =
    (if length p < l4 p + 8 \<or> length p < 34 then Inl OutOfBounds
     else if Size < INT_MIN + int (l4 p + 8) then Inl SignedOverflow
     else if int (length p) < Size then Inl OutOfBounds
     else Inr ((), logged (udp_log p Size) (addressed p w)))"
proof (cases "length p < l4 p + 8 \<or> length p < 34")
  case True
  then show ?thesis using over_reads_run [OF print_udp_packet_short [OF True] assms(1)] by simp
next
  case False
  then have "l4 p + 8 \<le> length p" "34 \<le> length p" "ip_len p + 8 \<le> length p" by (simp_all add: l4_def)
  then show ?thesis
    using starts_run [OF print_udp_packet_starts assms(1) _ assms(2)] by (auto simp: dumped_def udp_log_def)
qed

lemma print_icmp_packet_run:
  assumes "log_open w" and "Size \<le> INT_MAX"
  shows "print_icmp_packet p Size (w :: 'a afp_world_scheme) =
    (if length p < l4 p + 4 \<or> length p < 34 then Inl OutOfBounds
     else if Size < INT_MIN + int (l4 p + 8) then Inl SignedOverflow
     else if int (length p) < Size \<and> int (l4 p + 8) < Size then Inl OutOfBounds
     else Inr ((), logged (icmp_log p Size) (addressed p w)))"
proof (cases "length p < l4 p + 4 \<or> length p < 34")
  case True
  then show ?thesis using over_reads_run [OF print_icmp_packet_short [OF True] assms(1)] by simp
next
  case False
  then have "l4 p + 4 \<le> length p" "34 \<le> length p" "ip_len p + 8 \<le> length p" by (simp_all add: l4_def)
  then show ?thesis
    using starts_run [OF print_icmp_packet_starts assms(1) _ assms(2)] by (auto simp: dumped_def icmp_log_def)
qed

section \<open>Properties\<close>

text \<open>
  C16: every outcome of \<^verbatim>\<open>print_tcp_packet\<close> with an open log, for every buffer and \<open>Size\<close>. It reads out
  of bounds when the 20 bytes of the TCP header are not inside the buffer, or the bytes it dumps as TCP
  header are not; the difference \<^verbatim>\<open>Size - header_size\<close> overflows when \<open>Size\<close> is close to the least \<^verbatim>\<open>int\<close>;
  it reads out of bounds when there is a payload and \<open>Size\<close> goes past the end of the buffer. In all other
  cases it logs exactly the text of the packet, every field in host order but the urgent pointer and the
  Ethernet type, and remembers the two addresses.
\<close>

theorem print_tcp_packet_exact:
  assumes "log_open w" and "Size \<le> INT_MAX"
  shows "print_tcp_packet p Size w =
    (if length p < l4 p + 20 \<or> length p < ip_len p + 4 * doff p then Inl OutOfBounds
     else if Size < INT_MIN + int (l4 p + 4 * doff p) then Inl SignedOverflow
     else if int (length p) < Size \<and> int (l4 p + 4 * doff p) < Size then Inl OutOfBounds
     else Inr ((), logged (tcp_log p Size) (addressed p w)))"
  using assms by (rule print_tcp_packet_run)

text \<open>An IPv4 packet in a frame, for the examples: no options, a TCP header of 20 bytes.\<close>

definition tcp_frame :: "byte list" where
  "tcp_frame = replicate 12 1 @ [8, 0, 0x45] @ replicate 8 0 @ [6] @ replicate 22 0 @ [0x50] @ replicate 7 0"

lemma tcp_frame_fields:
  "length tcp_frame = 54" "l4 tcp_frame = 34" "ip_len tcp_frame = 20" "doff tcp_frame = 5" "tcp_frame ! 23 = 6"
  by (simp_all add: tcp_frame_def l4_def ip_len_def doff_def nth_append)

theorem print_tcp_packet_exact_witness:
  "print_tcp_packet tcp_frame 54 start_afp = Inr ((), logged (tcp_log tcp_frame 54) (addressed tcp_frame start_afp)) \<and>
   print_tcp_packet tcp_frame 55 start_afp = Inl OutOfBounds \<and>
   print_tcp_packet tcp_frame INT_MIN start_afp = Inl SignedOverflow"
  using print_tcp_packet_exact [of start_afp 54 tcp_frame] print_tcp_packet_exact [of start_afp 55 tcp_frame]
    print_tcp_packet_exact [of start_afp INT_MIN tcp_frame]
  by (simp add: tcp_frame_fields INT_MIN_def INT_MAX_def)

text \<open>
  C33: every outcome of the UDP and ICMP printers with an open log, for every buffer and \<open>Size\<close>. They
  read out of bounds when the IP header or the fields they print, 8 bytes of UDP and 4 of ICMP, are not
  inside the buffer, and when there is a payload and \<open>Size\<close> goes past its end; \<^verbatim>\<open>Size - header_size\<close>
  overflows when \<open>Size\<close> is close to the least \<^verbatim>\<open>int\<close>; otherwise they log exactly the text of the packet.
\<close>

theorem print_udp_icmp_exact:
  assumes "log_open w" and "Size \<le> INT_MAX"
  shows "print_udp_packet p Size w =
      (if length p < l4 p + 8 \<or> length p < 34 then Inl OutOfBounds
       else if Size < INT_MIN + int (l4 p + 8) then Inl SignedOverflow
       else if int (length p) < Size then Inl OutOfBounds
       else Inr ((), logged (udp_log p Size) (addressed p w))) \<and>
    print_icmp_packet p Size w =
      (if length p < l4 p + 4 \<or> length p < 34 then Inl OutOfBounds
       else if Size < INT_MIN + int (l4 p + 8) then Inl SignedOverflow
       else if int (length p) < Size \<and> int (l4 p + 8) < Size then Inl OutOfBounds
       else Inr ((), logged (icmp_log p Size) (addressed p w)))"
  by (intro conjI print_udp_packet_run print_icmp_packet_run assms)

theorem print_udp_icmp_exact_witness:
  "print_udp_packet tcp_frame 44 start_afp = Inr ((), logged (udp_log tcp_frame 44) (addressed tcp_frame start_afp)) \<and>
   print_icmp_packet tcp_frame 44 start_afp = Inr ((), logged (icmp_log tcp_frame 44) (addressed tcp_frame start_afp)) \<and>
   print_udp_packet (take 41 tcp_frame) 41 start_afp = Inl OutOfBounds"
proof -
  have short: "l4 (take 41 tcp_frame) = 34" by (simp add: l4_def ip_len_def tcp_frame_def nth_append)
  show ?thesis
    using print_udp_icmp_exact [of start_afp 44 tcp_frame] print_udp_icmp_exact [of start_afp 41 "take 41 tcp_frame"]
    by (simp add: tcp_frame_fields short INT_MIN_def INT_MAX_def)
qed

end
