(* ===== verification/Afp_Process.thy ===== *)
theory Afp_Process
  imports Afp_Print
begin

text \<open>
  \<^verbatim>\<open>ProcessPacket\<close> of \<^verbatim>\<open>sniff_afpacket/src/source-af-packet.c\<close>: it counts the packets per protocol in
  global \<^verbatim>\<open>int\<close>s and logs TCP packets.
\<close>

text \<open>\<^verbatim>\<open>++counter\<close> on a signed integer.\<close>

definition bump :: "('s \<Rightarrow> int) \<Rightarrow> ((int \<Rightarrow> int) \<Rightarrow> 's \<Rightarrow> 's) \<Rightarrow> ('s, unit) prog" where
  "bump get upd =
     pbind (gets get) (\<lambda>v. if v < INT_MAX then modify (upd (\<lambda>_. v + 1)) else stop SignedOverflow)"

definition ProcessPacket :: "cptr \<Rightarrow> int \<Rightarrow> ('w afp_world_scheme, int) prog" where
  "ProcessPacket buffer Size =
     (let iph = padd buffer 14 in
      pbind (bump total_count total_count_update) (\<lambda>_.
      pbind (lift (rd iph 9)) (\<lambda>protocol.
      pbind (if protocol = 1 then bump icmp_count icmp_count_update
             else if protocol = 2 then bump igmp_count igmp_count_update
             else if protocol = 6
             then pbind (bump tcp_count tcp_count_update) (\<lambda>_. print_tcp_packet buffer Size)
             else if protocol = 17 then bump udp_count udp_count_update
             else bump others_count others_count_update) (\<lambda>_.
      ret 0))))"

section \<open>The counters\<close>

text \<open>The state after a packet of protocol \<open>k\<close> has been counted.\<close>

definition counted :: "byte \<Rightarrow> 'w afp_world_scheme \<Rightarrow> 'w afp_world_scheme" where
  "counted k w =
     (let w = w\<lparr>total_count := total_count w + 1\<rparr> in
      if k = 1 then w\<lparr>icmp_count := icmp_count w + 1\<rparr>
      else if k = 2 then w\<lparr>igmp_count := igmp_count w + 1\<rparr>
      else if k = 6 then w\<lparr>tcp_count := tcp_count w + 1\<rparr>
      else if k = 17 then w\<lparr>udp_count := udp_count w + 1\<rparr>
      else w\<lparr>others_count := others_count w + 1\<rparr>)"

text \<open>The counters are naturals and add up to the total.\<close>

definition tally_inv :: "'w afp_world_scheme \<Rightarrow> bool" where
  "tally_inv w \<longleftrightarrow> 0 \<le> tcp_count w \<and> 0 \<le> udp_count w \<and> 0 \<le> icmp_count w \<and> 0 \<le> igmp_count w \<and>
     0 \<le> others_count w \<and>
     total_count w = tcp_count w + udp_count w + icmp_count w + igmp_count w + others_count w"

lemma tally_inv_counted: "tally_inv w \<Longrightarrow> tally_inv (counted k w)"
  by (auto simp: tally_inv_def counted_def Let_def)

lemma total_counted [simp]: "total_count (counted k w) = total_count w + 1"
  by (simp add: counted_def Let_def)

lemma log_open_counted [simp]: "log_open (counted k w) = log_open w"
  by (simp add: counted_def Let_def log_open_def)

text \<open>What a packet does to the state: it is counted and, if it is TCP, logged.\<close>

definition processed :: "cptr \<Rightarrow> int \<Rightarrow> 'w afp_world_scheme \<Rightarrow> 'w afp_world_scheme" where
  "processed p Size w =
     (if p ! 23 = 6 then logged (tcp_log p Size) (addressed p (counted 6 w)) else counted (p ! 23) w)"

lemma counters_processed [simp]:
  "total_count (processed p n w) = total_count (counted (p ! 23) w)"
  "tcp_count (processed p n w) = tcp_count (counted (p ! 23) w)"
  "udp_count (processed p n w) = udp_count (counted (p ! 23) w)"
  "icmp_count (processed p n w) = icmp_count (counted (p ! 23) w)"
  "igmp_count (processed p n w) = igmp_count (counted (p ! 23) w)"
  "others_count (processed p n w) = others_count (counted (p ! 23) w)"
  by (simp_all add: processed_def logged_def addressed_def)

lemma log_open_processed [simp]: "log_open (processed p n w) = log_open w"
  by (simp add: processed_def)

lemma tally_inv_processed: "tally_inv w \<Longrightarrow> tally_inv (processed p n w)"
  using tally_inv_counted [of w "p ! 23"] by (simp add: tally_inv_def)

text \<open>
  A buffer that holds at least the largest headers, 14 bytes of Ethernet and 60 bytes each of IP and
  TCP, and the \<open>Size\<close> bytes of the packet, can be processed whatever its contents are, unless \<open>Size\<close> is
  so close to the least \<^verbatim>\<open>int\<close> that taking the headers off it overflows.
\<close>

definition roomy :: "cptr \<Rightarrow> int \<Rightarrow> bool" where
  "roomy p Size \<longleftrightarrow> 134 \<le> length p \<and> Size \<le> int (length p) \<and> Size \<le> INT_MAX"

definition payload_overflows :: "cptr \<Rightarrow> int \<Rightarrow> bool" where
  "payload_overflows p Size \<longleftrightarrow> p ! 23 = 6 \<and> Size < INT_MIN + int (l4 p + 4 * doff p)"

lemma doff_less: "doff p < 16"
proof -
  have "unat (p ! (l4 p + 12)) < 256" using unsigned_less [of "p ! (l4 p + 12)"] by simp
  then show ?thesis by (simp add: doff_def)
qed

lemma ip_len_le: "ip_len p \<le> 60"
  by (simp add: ip_len_def)

lemma headers_le: "l4 p + 4 * doff p \<le> 134"
  using doff_less [of p] ip_len_le [of p] by (simp add: l4_def)

lemma no_overflow: "- 2147483514 \<le> Size \<Longrightarrow> \<not> payload_overflows p Size"
  using headers_le [of p] by (simp add: payload_overflows_def INT_MIN_def)

lemma print_tcp_packet_roomy:
  assumes "log_open w" and "roomy p Size" and "p ! 23 = 6"
  shows "print_tcp_packet p Size w =
    (if payload_overflows p Size then Inl SignedOverflow else Inr ((), logged (tcp_log p Size) (addressed p w)))"
proof -
  have "l4 p + 20 \<le> length p" "ip_len p + 4 * doff p \<le> length p" "Size \<le> int (length p)" "Size \<le> INT_MAX"
    using assms(2) doff_less [of p] ip_len_le [of p] by (simp_all add: roomy_def l4_def)
  then show ?thesis
    using assms(3) by (simp add: print_tcp_packet_run [OF assms(1)] payload_overflows_def)
qed

lemma bump_run: "get w < INT_MAX \<Longrightarrow> bump get upd w = Inr ((), upd (\<lambda>_. get w + 1) w)"
  by (simp add: bump_def modify_def)

lemma bump_over: "\<not> get w < INT_MAX \<Longrightarrow> bump get upd w = Inl SignedOverflow"
  by (simp add: bump_def)

lemma ProcessPacket_any:
  assumes "log_open w" and "tally_inv w" and "total_count w < INT_MAX" and "roomy p Size"
  shows "ProcessPacket p Size w =
    (if payload_overflows p Size then Inl SignedOverflow else Inr (0, processed p Size w))"
proof -
  have 23: "rd (padd p 14) 9 = Inr (p ! 23)" using assms(4) by (simp add: roomy_def rd_padd)
  have less: "tcp_count w < INT_MAX" "udp_count w < INT_MAX" "icmp_count w < INT_MAX"
    "igmp_count w < INT_MAX" "others_count w < INT_MAX"
    using assms(2,3) by (simp_all add: tally_inv_def)
  have open_log: "log_open (counted 6 w)" using assms(1) by simp
  note tcp = print_tcp_packet_roomy [OF open_log assms(4)]
  show ?thesis
  proof (cases "p ! 23 = 6")
    case True
    then show ?thesis
      using less assms(3) tcp unfolding ProcessPacket_def Let_def 23 lift_Inr pbind_ret processed_def
      by (simp add: pbind_def bump_run counted_def Let_def)
  next
    case False
    then show ?thesis
      using less assms(3) unfolding ProcessPacket_def Let_def 23 lift_Inr pbind_ret processed_def payload_overflows_def
      by (simp add: pbind_def bump_run counted_def Let_def)
  qed
qed

lemma ProcessPacket_roomy:
  assumes "log_open w" and "tally_inv w" and "total_count w < INT_MAX" and "roomy p Size" and "0 \<le> Size"
  shows "ProcessPacket p Size w = Inr (0, processed p Size w)"
  using ProcessPacket_any [OF assms(1-4)] no_overflow [of Size p] assms(5) by simp

text \<open>Programs that leave the counters alone, and the state of which this one is a part.\<close>

definition counters :: "'w afp_world_scheme \<Rightarrow> int list" where
  "counters w = [total_count w, tcp_count w, udp_count w, icmp_count w, igmp_count w, others_count w]"

definition keeps :: "('w afp_world_scheme, 'a) prog \<Rightarrow> bool" where
  "keeps m \<longleftrightarrow> (\<forall>w r w'. m w = Inr (r, w') \<longrightarrow>
     counters w' = counters w \<and> afp_world.more w' = afp_world.more w)"

named_theorems keeps_intros

lemma keeps_bind [keeps_intros]:
  assumes "keeps m" and "\<And>a. keeps (f a)"
  shows "keeps (pbind m f)"
  unfolding keeps_def pbind_Inr_iff using assms unfolding keeps_def by metis

lemma keeps_basic [keeps_intros]:
  "keeps (flog s)" "keeps (lift r)" "keeps (ret a)" "keeps (gets g)"
  "keeps (modify (\<lambda>w. w\<lparr>source := s'\<rparr>))" "keeps (modify (\<lambda>w. w\<lparr>dest := s'\<rparr>))"
  by (auto simp: keeps_def flog_def lift_def gets_def modify_def counters_def split: option.splits sum.splits)

lemma keeps_if [keeps_intros]: "keeps m \<Longrightarrow> keeps m' \<Longrightarrow> keeps (if c then m else m')"
  by simp

lemma keeps_for_each [keeps_intros]: "(\<And>x. keeps (f x)) \<Longrightarrow> keeps (for_each xs f)"
  by (induction xs) (auto intro!: keeps_intros)

lemma keeps_PrintData [keeps_intros]: "keeps (PrintData p n)"
  unfolding PrintData_def PrintData_step_def print_dump_char_def by (intro keeps_intros)

lemma keeps_flog_field [keeps_intros]: "keeps (flog_field l r s)"
  unfolding flog_field_def by (intro keeps_intros)

lemma keeps_print_ip_header [keeps_intros]: "keeps (print_ip_header p n)"
  unfolding print_ip_header_def print_ethernet_header_def Let_def by (intro keeps_intros)

lemma keeps_print_tcp_packet: "keeps (print_tcp_packet p n)"
  unfolding print_tcp_packet_def Let_def by (intro keeps_intros)

lemma ProcessPacket_Inr:
  fixes w :: "'a afp_world_scheme"
  assumes "ProcessPacket buffer Size w = Inr (r, w')"
  shows "r = 0 \<and> counters w' = counters (counted (buffer ! 23) w) \<and> afp_world.more w' = afp_world.more w"
proof -
  have rd: "rd (padd buffer 14) 9 = Inr k \<Longrightarrow> k = buffer ! 23" for k
    by (auto simp: rd_Inr_iff)
  have bump: "bump get upd v = Inr (a, v') \<Longrightarrow> v' = upd (\<lambda>_. get v + 1) v"
    for get upd a and v v' :: "'a afp_world_scheme"
    by (auto simp: bump_def modify_def split: if_splits)
  have tcp: "print_tcp_packet buffer Size v = Inr (a, v') \<Longrightarrow>
      counters v' = counters v \<and> afp_world.more v' = afp_world.more v"
    for a and v v' :: "'a afp_world_scheme"
    using keeps_print_tcp_packet [of buffer Size] unfolding keeps_def by blast
  obtain w1 k where 1: "bump total_count total_count_update w = Inr ((), w1)" "rd (padd buffer 14) 9 = Inr k"
    and 2: "(if k = 1 then bump icmp_count icmp_count_update
             else if k = 2 then bump igmp_count igmp_count_update
             else if k = 6 then pbind (bump tcp_count tcp_count_update) (\<lambda>_. print_tcp_packet buffer Size)
             else if k = 17 then bump udp_count udp_count_update
             else bump others_count others_count_update) w1 = Inr ((), w')" and "r = 0"
    using assms unfolding ProcessPacket_def Let_def pbind_Inr_iff
    by (auto simp: lift_run_Inr_iff)
  have w1: "w1 = w\<lparr>total_count := total_count w + 1\<rparr>" using bump [OF 1(1)] by simp
  have k: "k = buffer ! 23" by (rule rd [OF 1(2)])
  consider "k = 1" | "k = 2" | "k = 6" | "k = 17" | "k \<notin> {1, 2, 6, 17}" by auto
  then have "counters w' = counters (counted k w) \<and> afp_world.more w' = afp_world.more w"
  proof cases
    case 3
    with 2 obtain w2 where "bump tcp_count tcp_count_update w1 = Inr ((), w2)"
      "print_tcp_packet buffer Size w2 = Inr ((), w')"
      by (auto simp: pbind_Inr_iff)
    with tcp bump have "counters w' = counters w2 \<and> afp_world.more w' = afp_world.more w2" "w2 = w1\<lparr>tcp_count := tcp_count w1 + 1\<rparr>" by blast+
    with 3 w1 show ?thesis by (simp add: counters_def counted_def)
  qed (use 2 w1 in \<open>auto dest!: bump simp: counters_def counted_def\<close>)
  with \<open>r = 0\<close> show ?thesis by (simp add: k)
qed

section \<open>Properties\<close>

text \<open>
  C15: while the log is open and fewer than \<open>2^31 - 1\<close> packets have been counted, \<^verbatim>\<open>ProcessPacket\<close> can
  fail in one way only on a buffer of at least 134 bytes that holds the \<open>Size\<close> bytes, whatever they are:
  for a TCP packet whose \<open>Size\<close> is less than the size of its headers above the least \<^verbatim>\<open>int\<close>, the size of
  the payload overflows. Otherwise it returns 0, counts the packet under the protocol of byte 23, logs
  exactly the text of a TCP packet, and leaves the log alone for the others.
\<close>

theorem ProcessPacket_total:
  assumes "log_open w" and "tally_inv w" and "total_count w < INT_MAX"
    and "134 \<le> length buffer" and "Size \<le> int (length buffer)" and "Size \<le> INT_MAX"
  shows "ProcessPacket buffer Size w =
    (if buffer ! 23 = 6 \<and> Size < INT_MIN + int (l4 buffer + 4 * doff buffer) then Inl SignedOverflow
     else Inr (0, if buffer ! 23 = 6 then logged (tcp_log buffer Size) (addressed buffer (counted 6 w))
                  else counted (buffer ! 23) w))"
  using ProcessPacket_any [OF assms(1-3), of buffer Size] assms(4-6)
  by (simp add: roomy_def processed_def payload_overflows_def)

theorem ProcessPacket_total_witness:
  "ProcessPacket (replicate 134 17) 60 start_afp = Inr (0, counted 17 start_afp) \<and>
   ProcessPacket (replicate 134 6) INT_MIN start_afp = Inl SignedOverflow"
  using ProcessPacket_total [of start_afp "replicate 134 17" 60] ProcessPacket_total [of start_afp "replicate 134 6" INT_MIN]
  by (simp add: tally_inv_def start_afp_def INT_MAX_def INT_MIN_def log_open_def l4_def)

text \<open>
  C11: whenever \<^verbatim>\<open>ProcessPacket\<close> returns, for any buffer and Size, it has counted the packet exactly
  once in the total and once under its protocol, so that the counters still add up to the total.
\<close>

theorem ProcessPacket_tally:
  assumes "ProcessPacket buffer Size w = Inr (r, w')" and "tally_inv w"
  shows "tally_inv w' \<and> total_count w' = total_count w + 1 \<and> r = 0 \<and>
    tcp_count w' = tcp_count w + of_bool (buffer ! 23 = 6) \<and>
    udp_count w' = udp_count w + of_bool (buffer ! 23 = 17) \<and>
    icmp_count w' = icmp_count w + of_bool (buffer ! 23 = 1) \<and>
    igmp_count w' = igmp_count w + of_bool (buffer ! 23 = 2) \<and>
    others_count w' = others_count w + of_bool (buffer ! 23 \<notin> {1, 2, 6, 17})"
  using ProcessPacket_Inr [OF assms(1)] assms(2)
  by (auto simp: tally_inv_def counters_def counted_def Let_def)

theorem ProcessPacket_tally_witness:
  "tally_inv (counted 17 start_afp) \<and> udp_count (counted 17 start_afp) = udp_count start_afp + 1"
proof -
  have "tally_inv start_afp" by (simp add: tally_inv_def start_afp_def)
  moreover have "ProcessPacket (replicate 134 17) 60 start_afp = Inr (0, processed (replicate 134 17) 60 start_afp)"
    by (rule ProcessPacket_roomy)
      (simp_all add: roomy_def tally_inv_def start_afp_def INT_MAX_def log_open_def)
  moreover have "processed (replicate 134 17) 60 start_afp = counted 17 start_afp"
    by (simp add: processed_def)
  ultimately show ?thesis
    using ProcessPacket_tally [of "replicate 134 17" 60 start_afp 0 "counted 17 start_afp"] by simp
qed

text \<open>
  C36: when the log could not be opened, which the code reports and then ignores, the first TCP packet of
  a sufficient size writes through the null pointer \<^verbatim>\<open>logfile\<close>.
\<close>

theorem ProcessPacket_no_log:
  assumes "\<not> log_open w" and "tally_inv w" and "total_count w < INT_MAX"
    and "134 \<le> length buffer" and "buffer ! 23 = 6"
  shows "ProcessPacket buffer Size w = Inl NullPtr"
proof -
  let ?w = "w\<lparr>total_count := total_count w + 1, tcp_count := tcp_count w + 1\<rparr>"
  have r: "rd (padd buffer 14) 9 = Inr 6" "rd (padd buffer 14) 0 = Inr (buffer ! 14)"
    using assms(4,5) by (simp_all add: rd_padd)
  have "ihl (buffer ! 14) < 16" by (rule ihl_less)
  then have off: "rd (padd buffer (ihl (buffer ! 14) * 4 + 14)) 12 = Inr (buffer ! (ihl (buffer ! 14) * 4 + 14 + 12))"
    using assms(4) by (simp add: rd_padd)
  have "\<not> log_open ?w" using assms(1) by (simp add: log_open_def)
  then have "print_tcp_packet buffer Size ?w = Inl NullPtr"
    unfolding print_tcp_packet_def Let_def r lift_Inr pbind_ret off by (rule pbind_flog_null)
  moreover have "tcp_count w < INT_MAX" using assms(2,3) by (simp add: tally_inv_def)
  ultimately show ?thesis
    using assms(3) unfolding ProcessPacket_def Let_def r lift_Inr pbind_ret
    by (simp add: pbind_def bump_run)
qed

theorem ProcessPacket_no_log_witness:
  "ProcessPacket (replicate 134 6) 60 (start_afp\<lparr>logfile := None\<rparr>) = Inl NullPtr"
  by (rule ProcessPacket_no_log) (simp_all add: log_open_def tally_inv_def start_afp_def INT_MAX_def)

end
