(* ===== verification/Afp_Loop.thy ===== *)
theory Afp_Loop
  imports Afp_Process
begin

text \<open>
  The flag \<^verbatim>\<open>running\<close> of \<^verbatim>\<open>sniff_afpacket/src/main.c\<close>, the signal handler that clears it, and the
  loop \<^verbatim>\<open>while(running)\<close> that the three capture functions share. The loop runs against a script: what
  the environment gives each iteration, and the signals that arrive between iterations.
\<close>

record run_world = afp_world +
  running :: bool

definition SIGINT :: int where "SIGINT = 2"
definition SIGTERM :: int where "SIGTERM = 15"

definition signal_handler :: "int \<Rightarrow> ('w run_world_scheme, unit) prog" where
  "signal_handler signum =
     (if signum = SIGTERM \<or> signum = SIGINT
      then pbind (puts (''Received terminal signal. Stop the program'' @ nl)) (\<lambda>_.
           modify (running_update (\<lambda>_. False)))
      else ret ())"

text \<open>How the body of a loop ends: it goes on, breaks, or returns from the function.\<close>

datatype 'v outcome = Continue 'v | Break 'v | Return int

text \<open>How the loop ends, or that it is still running when the script is over.\<close>

datatype 'v ending = Done 'v | Returned int | Still_running

datatype 'i env = Input 'i | Signal int

fun while_running ::
    "('i \<Rightarrow> 'v \<Rightarrow> ('w run_world_scheme, 'v outcome) prog) \<Rightarrow> 'i env list \<Rightarrow> 'v \<Rightarrow>
     ('w run_world_scheme, 'v ending) prog" where
  "while_running body [] v = pbind (gets running) (\<lambda>r. ret (if r then Still_running else Done v))"
| "while_running body (Signal signum # es) v =
     pbind (signal_handler signum) (\<lambda>_. while_running body es v)"
| "while_running body (Input i # es) v =
     pbind (gets running) (\<lambda>r.
     if \<not> r then ret (Done v)
     else pbind (body i v) (\<lambda>o'.
          case o' of
            Continue v \<Rightarrow> while_running body es v
          | Break v \<Rightarrow> ret (Done v)
          | Return n \<Rightarrow> ret (Returned n)))"

abbreviation stop_signal :: "'i env \<Rightarrow> bool" where
  "stop_signal e \<equiv> e = Signal SIGTERM \<or> e = Signal SIGINT"

text \<open>Once the flag is cleared, later signals only print their message.\<close>

lemma signal_handler_stopped:
  assumes "\<not> running w"
  shows "\<exists>s. signal_handler signum w = Inr ((), w\<lparr>out := out w @ s\<rparr>)"
proof -
  have "w\<lparr>out := t, running := False\<rparr> = w\<lparr>out := t\<rparr>" for t using assms by (cases w) simp
  then show ?thesis
    by (cases "signum = SIGTERM \<or> signum = SIGINT")
      (auto simp: signal_handler_def modify_def grown_def intro: exI [of _ "[]"])
qed

lemma stopped: "\<not> running w \<Longrightarrow> \<exists>s. while_running body es v w = Inr (Done v, w\<lparr>out := out w @ s\<rparr>)"
proof (induction es arbitrary: w)
  case Nil
  then show ?case by (auto intro: exI [of _ "[]"])
next
  case (Cons e es)
  show ?case
  proof (cases e)
    case (Input i)
    then show ?thesis using Cons.prems by (auto intro: exI [of _ "[]"])
  next
    case (Signal n)
    obtain s where s: "signal_handler n w = Inr ((), w\<lparr>out := out w @ s\<rparr>)"
      using signal_handler_stopped [OF Cons.prems] by blast
    obtain t where "while_running body es v (w\<lparr>out := out w @ s\<rparr>) = Inr (Done v, w\<lparr>out := (out w @ s) @ t\<rparr>)"
      using Cons.IH [of "w\<lparr>out := out w @ s\<rparr>"] Cons.prems by auto
    then show ?thesis using s Signal by (auto simp: pbind_step)
  qed
qed

lemma signal_handler_stops:
  "s = SIGTERM \<or> s = SIGINT \<Longrightarrow> \<exists>w'. signal_handler s w = Inr ((), w') \<and> \<not> running w'"
  by (auto simp: signal_handler_def modify_def)

text \<open>
  A stop signal ends the loop: whatever the body does and wherever the signal is in the script, the
  loop is not still running at the end.
\<close>

lemma while_running_stops:
  assumes "\<exists>e \<in> set es. stop_signal e"
  shows "while_running body es v w \<noteq> Inr (Still_running, w')"
  using assms
proof (induction body es v arbitrary: w rule: while_running.induct)
  case (1 body v)
  then show ?case by simp
next
  case (2 body s es v)
  show ?case
  proof (cases "s = SIGTERM \<or> s = SIGINT")
    case True
    then obtain w1 where "signal_handler s w = Inr ((), w1)" "\<not> running w1"
      using signal_handler_stops by blast
    moreover from stopped [OF this(2), of body es v]
    obtain w2 where "while_running body es v w1 = Inr (Done v, w2)" by blast
    ultimately show ?thesis by (simp add: pbind_step)
  next
    case False
    with "2.prems" have "\<exists>e \<in> set es. stop_signal e" by auto
    with "2.IH" [of w] False show ?thesis by (simp add: signal_handler_def)
  qed
next
  case (3 body i es v)
  then have "\<exists>e \<in> set es. stop_signal e" by simp
  with "3.IH" show ?case
    by (auto simp: pbind_def split: sum.split outcome.split)
qed

text \<open>Bodies that agree on the input of a script without signals but at its end.\<close>

lemma while_running_replicate:
  assumes "\<And>v. body g v = body' g' v" and "while_running body es = while_running body' es'"
  shows "while_running body (replicate n (Input g) @ es) = while_running body' (replicate n (Input g') @ es')"
proof (induction n)
  case 0
  show ?case using assms(2) by simp
next
  case (Suc n)
  show ?case by (rule ext) (simp only: replicate_Suc append_Cons while_running.simps assms(1) Suc.IH)
qed

end
