(* ===== verification/Afp_Stats.thy ===== *)
theory Afp_Stats
  imports Net_Prelude
begin

text \<open>
  \<^verbatim>\<open>sniff_afpacket/src/stats.c\<close>: the statistics of a capture. The arithmetic of \<^verbatim>\<open>double\<close> and its
  \<^verbatim>\<open>%f\<close> conversions are those of the target and a parameter; the time the clock returns is one too.
\<close>

record timespec =
  tv_sec :: int
  tv_nsec :: int

record Stats =
  packets_processed :: u64
  bytes_processed :: u64
  start_time :: timespec
  end_time :: timespec

record 'd double_ops =
  d_of_int :: "int \<Rightarrow> 'd"
  d_add :: "'d \<Rightarrow> 'd \<Rightarrow> 'd"
  d_mul :: "'d \<Rightarrow> 'd \<Rightarrow> 'd"
  d_div :: "'d \<Rightarrow> 'd \<Rightarrow> 'd"
  d_show :: "nat \<Rightarrow> 'd \<Rightarrow> string"

definition init_stats :: "timespec \<Rightarrow> Stats \<Rightarrow> Stats" where
  "init_stats now stats = stats\<lparr>packets_processed := 0, bytes_processed := 0, start_time := now\<rparr>"

definition zero_stats :: Stats where
  "zero_stats = \<lparr>packets_processed = 0, bytes_processed = 0, start_time = \<lparr>tv_sec = 0, tv_nsec = 0\<rparr>,
     end_time = \<lparr>tv_sec = 0, tv_nsec = 0\<rparr>\<rparr>"

text \<open>The number of seconds, of packets per second and of megabits per second.\<close>

definition duration :: "'d double_ops \<Rightarrow> timespec \<Rightarrow> timespec \<Rightarrow> 'd" where
  "duration d t0 t1 =
     d_add d (d_of_int d (tv_sec t1 - tv_sec t0))
             (d_div d (d_of_int d (tv_nsec t1 - tv_nsec t0)) (d_of_int d 1000000000))"

definition print_stats :: "'d double_ops \<Rightarrow> timespec \<Rightarrow> Stats \<Rightarrow> ('w world_scheme, Stats) prog" where
  "print_stats d now stats =
     (let stats = stats\<lparr>end_time := now\<rparr>;
          dur = duration d (start_time stats) (end_time stats);
          pps = d_div d (d_of_int d (int (unat (packets_processed stats)))) dur;
          mbps = d_div d (d_div d (d_mul d (d_of_int d (int (unat (bytes_processed stats)))) (d_of_int d 8))
                                  (d_of_int d 1000000)) dur in
      pbind (puts (''Duration: '' @ d_show d 2 dur @ '' seconds'' @ nl)) (\<lambda>_.
      pbind (puts (''Packets processed: '' @
               (let s = show_dec (unat (packets_processed stats)) in replicate (2 - length s) CHR ''0'' @ s) @ nl)) (\<lambda>_.
      pbind (puts (''Throughput: '' @ d_show d 6 pps @ '' packets/second'' @ nl)) (\<lambda>_.
      pbind (puts (''Bandwidth: '' @ d_show d 6 mbps @ '' Mpbs'' @ nl)) (\<lambda>_.
      ret stats)))))"

text \<open>One packet of \<open>n\<close> bytes, as the loops count it.\<close>

definition count_packet :: "u64 \<Rightarrow> Stats \<Rightarrow> Stats" where
  "count_packet n stats =
     stats\<lparr>packets_processed := packets_processed stats + 1, bytes_processed := bytes_processed stats + n\<rparr>"

definition stats_text :: "'d double_ops \<Rightarrow> timespec \<Rightarrow> Stats \<Rightarrow> string" where
  "stats_text d now stats =
     (let dur = duration d (start_time stats) now; n = show_dec (unat (packets_processed stats)) in
      ''Duration: '' @ d_show d 2 dur @ '' seconds'' @ nl @
      ''Packets processed: '' @ replicate (2 - length n) CHR ''0'' @ n @ nl @
      ''Throughput: '' @ d_show d 6 (d_div d (d_of_int d (int (unat (packets_processed stats)))) dur) @
        '' packets/second'' @ nl @
      ''Bandwidth: '' @ d_show d 6 (d_div d (d_div d (d_mul d (d_of_int d (int (unat (bytes_processed stats))))
        (d_of_int d 8)) (d_of_int d 1000000)) dur) @ '' Mpbs'' @ nl)"

lemma print_stats_run:
  "print_stats d now stats w = Inr (stats\<lparr>end_time := now\<rparr>, grown 0 (stats_text d now stats) w)"
  by (simp add: print_stats_def stats_text_def Let_def)

lemma fold_count_packet:
  "fold count_packet ns stats =
     stats\<lparr>packets_processed := packets_processed stats + of_nat (length ns),
           bytes_processed := bytes_processed stats + sum_list ns\<rparr>"
  by (induction ns arbitrary: stats) (simp_all add: count_packet_def algebra_simps)

section \<open>Properties\<close>

text \<open>
  C37: the statistics of a capture whose packets have the lengths \<open>ns\<close> start at zero and end with the
  number of packets and the sum of the lengths, both modulo \<open>2^64\<close>; printing them sets the end time,
  prints four lines and changes nothing else.
\<close>

theorem stats_of_capture:
  "print_stats d t1 (fold count_packet (map of_nat ns) (init_stats t0 s)) w =
     (let s' = s\<lparr>start_time := t0, packets_processed := of_nat (length ns),
                bytes_processed := of_nat (sum_list ns)\<rparr> in
      Inr (s'\<lparr>end_time := t1\<rparr>, w\<lparr>out := out w @ stats_text d t1 s'\<rparr>))"
proof -
  have "sum_list (map of_nat ns) = (of_nat (sum_list ns) :: u64)" by (induction ns) simp_all
  then show ?thesis by (simp add: fold_count_packet init_stats_def print_stats_run Let_def grown_def)
qed

end
