(* ===== verification/Afp_Ring.thy ===== *)
theory Afp_Ring
  imports Afp_Loop Afp_Stats
begin

text \<open>
  The ring buffer of \<^verbatim>\<open>sniff_afpacket/src/source-af-packet.c\<close>: a mapped region of 64 frames of 2048
  bytes, shared with the kernel. A frame starts with a \<^verbatim>\<open>struct tpacket_hdr\<close>: the status word at
  offset 0, the length of the packet at 8, and the offset of the packet in the frame at 16. Bit 0 of
  the status says that the frame belongs to the program.
\<close>

definition FRAME_SIZE :: nat where "FRAME_SIZE = 2048"
definition NUM_FRAMES :: nat where "NUM_FRAMES = 64"
definition RING_BYTES :: nat where "RING_BYTES = 131072"

lemma RING_BYTES_eq: "RING_BYTES = FRAME_SIZE * NUM_FRAMES"
  by (simp add: RING_BYTES_def FRAME_SIZE_def NUM_FRAMES_def)

definition TP_STATUS_USER :: u64 where "TP_STATUS_USER = 1"

record ring_world = run_world +
  ring_mem :: "nat \<Rightarrow> byte"

text \<open>The local variables of the loops.\<close>

record ring_vars =
  frame_num :: nat
  stats :: Stats

text \<open>A pointer into the region: what can be read from there on.\<close>

definition ring_ptr :: "(nat \<Rightarrow> byte) \<Rightarrow> nat \<Rightarrow> cptr" where
  "ring_ptr mem a = map mem [a..<RING_BYTES]"

definition load64 :: "cptr \<Rightarrow> nat \<Rightarrow> fault + u64" where
  "load64 p i =
     rbind (load32 p i) (\<lambda>lo. rbind (load32 p (i + 4)) (\<lambda>hi. Inr (push_bit 32 (ucast hi) OR ucast lo)))"

definition store64 :: "nat \<Rightarrow> u64 \<Rightarrow> (nat \<Rightarrow> byte) \<Rightarrow> nat \<Rightarrow> byte" where
  "store64 a v mem = (\<lambda>i. if a \<le> i \<and> i < a + 8 then ucast (drop_bit (8 * (i - a)) v) else mem i)"

definition frame_base :: "ring_vars \<Rightarrow> nat" where
  "frame_base v = frame_num v * FRAME_SIZE"

section \<open>The bodies of the loops\<close>

text \<open>\<^verbatim>\<open>!(header->tp_status & TP_STATUS_USER)\<close> is the negation of this.\<close>

definition frame_ready :: "ring_vars \<Rightarrow> ('w ring_world_scheme, bool) prog" where
  "frame_ready v =
     pbind (gets ring_mem) (\<lambda>mem.
     pbind (lift (load64 (ring_ptr mem (frame_base v)) 0)) (\<lambda>tp_status.
     ret (tp_status AND TP_STATUS_USER \<noteq> 0)))"

text \<open>The packet of the current frame is processed and counted, and the frame released.\<close>

definition consume_frame :: "ring_vars \<Rightarrow> ('w ring_world_scheme, ring_vars) prog" where
  "consume_frame v =
     pbind (gets ring_mem) (\<lambda>mem.
     let header = ring_ptr mem (frame_base v) in
     pbind (lift (load16 header 16)) (\<lambda>tp_mac.
     pbind (lift (load32 header 8)) (\<lambda>tp_len.
     let packet_data = ring_ptr mem (frame_base v + unat tp_mac) in
     pbind (ProcessPacket packet_data (sint tp_len)) (\<lambda>_.
     pbind (modify (ring_mem_update (store64 (frame_base v) 0))) (\<lambda>_.
     ret \<lparr>frame_num = (frame_num v + 1) mod NUM_FRAMES,
          stats = count_packet (ucast tp_len) (stats v)\<rparr>)))))"

definition noPolling_body :: "ring_vars \<Rightarrow> ('w ring_world_scheme, ring_vars outcome) prog" where
  "noPolling_body v =
     pbind (frame_ready v) (\<lambda>ready.
     if \<not> ready then ret (Continue v)
     else pbind (consume_frame v) (\<lambda>v. ret (Continue v)))"

definition POLLIN :: u16 where "POLLIN = 0x0001"
definition POLLERR :: u16 where "POLLERR = 0x0008"
definition POLLHUP :: u16 where "POLLHUP = 0x0010"
definition POLLNVAL :: u16 where "POLLNVAL = 0x0020"
definition POLLRDHUP :: u16 where "POLLRDHUP = 0x2000"

text \<open>
  The body with polling, for the result \<open>r\<close> of \<^verbatim>\<open>poll\<close> and the text \<open>e\<close> of its error. The test reads
  the field \<^verbatim>\<open>events\<close>, that the code set to \<^verbatim>\<open>POLLIN\<close>.
\<close>

definition polling_body :: "u16 \<Rightarrow> int \<Rightarrow> string \<Rightarrow> ring_vars \<Rightarrow> ('w ring_world_scheme, ring_vars outcome) prog" where
  "polling_body events r e v =
     (if r > 0 \<and> events AND (POLLHUP OR POLLRDHUP OR POLLERR OR POLLNVAL) \<noteq> 0 then ret (Continue v)
      else if r > 0
      then pbind (frame_ready v) (\<lambda>ready.
           if \<not> ready then ret (Break v)
           else pbind (consume_frame v) (\<lambda>v. ret (Continue v)))
      else if r = 0 then ret (Continue v)
      else pbind (modify (errout_update (\<lambda>s. s @ ''poll: '' @ e @ nl))) (\<lambda>_. ret (Break v)))"

section \<open>The loops\<close>

text \<open>
  Between two looks at a frame the kernel may have written to the region: the input of an iteration is
  what it did, and what \<^verbatim>\<open>poll\<close> returned.
\<close>

definition noPolling_loop ::
    "((nat \<Rightarrow> byte) \<Rightarrow> nat \<Rightarrow> byte) env list \<Rightarrow> ring_vars \<Rightarrow> ('w ring_world_scheme, ring_vars ending) prog" where
  "noPolling_loop =
     while_running (\<lambda>k v. pbind (modify (ring_mem_update k)) (\<lambda>_. noPolling_body v))"

record poll_event =
  kernel_did :: "(nat \<Rightarrow> byte) \<Rightarrow> nat \<Rightarrow> byte"
  poll_result :: int
  poll_error :: string

definition polling_loop ::
    "poll_event env list \<Rightarrow> ring_vars \<Rightarrow> ('w ring_world_scheme, ring_vars ending) prog" where
  "polling_loop =
     while_running (\<lambda>ev v. pbind (modify (ring_mem_update (kernel_did ev))) (\<lambda>_.
                           polling_body POLLIN (poll_result ev) (poll_error ev) v))"

section \<open>The region as a queue of frames\<close>

text \<open>What the kernel and the program exchange: the length and the bytes of a packet in its frame.\<close>

definition slot_ready :: "(nat \<Rightarrow> byte) \<Rightarrow> nat \<Rightarrow> bool" where
  "slot_ready mem k \<longleftrightarrow> bit (mem (k * FRAME_SIZE)) 0"

definition slot_len :: "(nat \<Rightarrow> byte) \<Rightarrow> nat \<Rightarrow> u32" where
  "slot_len mem k = (let a = k * FRAME_SIZE in le4 (mem (a + 8)) (mem (a + 9)) (mem (a + 10)) (mem (a + 11)))"

definition slot_mac :: "(nat \<Rightarrow> byte) \<Rightarrow> nat \<Rightarrow> nat" where
  "slot_mac mem k = (let a = k * FRAME_SIZE in unat (le2 (mem (a + 16)) (mem (a + 17))))"

definition slot_frame :: "(nat \<Rightarrow> byte) \<Rightarrow> nat \<Rightarrow> u32 \<times> byte list" where
  "slot_frame mem k =
     (slot_len mem k, map mem [k * FRAME_SIZE + slot_mac mem k..<(k + 1) * FRAME_SIZE])"

text \<open>The frames in the order the program looks at them, from frame \<open>k\<close> on; and the queue it sees.\<close>

definition slots :: "nat \<Rightarrow> nat list" where
  "slots k = map (\<lambda>i. (k + i) mod NUM_FRAMES) [0..<NUM_FRAMES]"

definition ring_queue :: "(nat \<Rightarrow> byte) \<Rightarrow> nat \<Rightarrow> (u32 \<times> byte list) list" where
  "ring_queue mem k = map (slot_frame mem) (takeWhile (slot_ready mem) (slots k))"

lemma length_ring_ptr [simp]: "length (ring_ptr mem a) = RING_BYTES - a"
  by (simp add: ring_ptr_def)

lemma nth_ring_ptr: "a + i < RING_BYTES \<Longrightarrow> ring_ptr mem a ! i = mem (a + i)"
  by (simp add: ring_ptr_def)

lemma header_in_ring: "k < NUM_FRAMES \<Longrightarrow> i < FRAME_SIZE \<Longrightarrow> k * FRAME_SIZE + i < RING_BYTES"
  by (simp add: NUM_FRAMES_def FRAME_SIZE_def RING_BYTES_def)

lemma load32_ring:
  "a + i + 3 < RING_BYTES \<Longrightarrow>
   load32 (ring_ptr mem a) i = Inr (le4 (mem (a + i)) (mem (a + i + 1)) (mem (a + i + 2)) (mem (a + i + 3)))"
  by (simp add: load32_eq nth_ring_ptr add.assoc)

lemma load16_ring:
  "a + i + 1 < RING_BYTES \<Longrightarrow> load16 (ring_ptr mem a) i = Inr (le2 (mem (a + i)) (mem (a + i + 1)))"
  by (simp add: load16_eq nth_ring_ptr add.assoc)

lemma status_bit: "(push_bit 32 (ucast hi) OR ucast (le4 a b c d) :: u64) AND 1 \<noteq> 0 \<longleftrightarrow> bit a 0" for hi :: u32
  by (simp add: and_one_eq odd_iff_mod_2_eq_one [symmetric] flip: bit_0)
    (simp add: bit_simps le4_def)

lemma frame_ready_run:
  assumes "frame_num v < NUM_FRAMES"
  shows "frame_ready v w = Inr (slot_ready (ring_mem w) (frame_num v), w)"
proof -
  have "frame_base v + 7 < RING_BYTES"
    using header_in_ring [OF assms, of 7] by (simp add: frame_base_def FRAME_SIZE_def)
  then show ?thesis
    by (simp add: frame_ready_def load64_def load32_ring TP_STATUS_USER_def status_bit slot_ready_def frame_base_def)
qed

section \<open>Consuming a frame\<close>

text \<open>A frame in which the packet and the largest headers fit.\<close>

definition slot_fits :: "(nat \<Rightarrow> byte) \<Rightarrow> nat \<Rightarrow> bool" where
  "slot_fits mem k \<longleftrightarrow> slot_mac mem k + 134 \<le> FRAME_SIZE \<and> slot_mac mem k + unat (slot_len mem k) \<le> FRAME_SIZE"

lemma ring_mem_processed [simp]: "ring_mem (processed p n w) = ring_mem w"
  by (simp add: processed_def logged_def addressed_def counted_def Let_def)

lemma sint_of_nat32: "n < 2147483648 \<Longrightarrow> sint (of_nat n :: u32) = int n"
  by (simp add: signed_of_nat signed_take_bit_int_eq_self)

lemma sint_small: "unat x < 2147483648 \<Longrightarrow> sint x = int (unat x)" for x :: u32
  using sint_of_nat32 [of "unat x"] by simp

text \<open>What consuming the current frame does.\<close>

definition consumed :: "ring_vars \<Rightarrow> 'w ring_world_scheme \<Rightarrow> ring_vars" where
  "consumed v w = \<lparr>frame_num = (frame_num v + 1) mod NUM_FRAMES,
     stats = count_packet (ucast (slot_len (ring_mem w) (frame_num v))) (stats v)\<rparr>"

definition packet_ptr :: "(nat \<Rightarrow> byte) \<Rightarrow> nat \<Rightarrow> cptr" where
  "packet_ptr mem k = ring_ptr mem (k * FRAME_SIZE + slot_mac mem k)"

lemma consume_frame_eq:
  assumes "frame_num v < NUM_FRAMES"
  shows "consume_frame v w =
    (let mem = ring_mem w; k = frame_num v in
     pbind (ProcessPacket (packet_ptr mem k) (sint (slot_len mem k))) (\<lambda>_.
     pbind (modify (ring_mem_update (store64 (k * FRAME_SIZE) 0))) (\<lambda>_. ret (consumed v w))) w)"
proof -
  have "frame_num v * FRAME_SIZE + 17 < RING_BYTES"
    using header_in_ring [OF assms, of 17] by (simp add: FRAME_SIZE_def)
  then have "load16 (ring_ptr (ring_mem w) (frame_base v)) 16
      = Inr (le2 (ring_mem w (frame_base v + 16)) (ring_mem w (frame_base v + 17)))"
    "load32 (ring_ptr (ring_mem w) (frame_base v)) 8 = Inr (slot_len (ring_mem w) (frame_num v))"
    by (simp_all add: load16_ring load32_ring frame_base_def slot_len_def Let_def ac_simps)
  then show ?thesis
    by (simp add: consume_frame_def Let_def packet_ptr_def slot_mac_def frame_base_def consumed_def)
qed

lemma packet_ptr_roomy:
  assumes "k < NUM_FRAMES" and "slot_fits mem k"
  shows "roomy (packet_ptr mem k) (int (unat (slot_len mem k)))"
proof -
  have "k * 2048 + 2048 \<le> 131072" "slot_mac mem k + 134 \<le> 2048" "slot_mac mem k + unat (slot_len mem k) \<le> 2048"
    using assms by (simp_all add: slot_fits_def FRAME_SIZE_def NUM_FRAMES_def)
  then have "134 \<le> length (packet_ptr mem k)" "unat (slot_len mem k) \<le> length (packet_ptr mem k)"
    "unat (slot_len mem k) \<le> 2147483647"
    unfolding packet_ptr_def length_ring_ptr FRAME_SIZE_def RING_BYTES_def by linarith+
  then show ?thesis by (simp only: roomy_def of_nat_le_iff simp_thms INT_MAX_def of_nat_le_numeral_iff)
qed

lemma consume_frame_run:
  assumes "frame_num v < NUM_FRAMES" and "slot_fits (ring_mem w) (frame_num v)"
    and "log_open w" and "tally_inv w" and "total_count w < INT_MAX"
  shows "consume_frame v w =
    Inr (consumed v w,
      (processed (packet_ptr (ring_mem w) (frame_num v)) (int (unat (slot_len (ring_mem w) (frame_num v)))) w)
        \<lparr>ring_mem := store64 (frame_num v * FRAME_SIZE) 0 (ring_mem w)\<rparr>)"
proof -
  let ?mem = "ring_mem w" and ?k = "frame_num v"
  have "unat (slot_len ?mem ?k) < 2147483648" using assms(2) by (simp add: slot_fits_def FRAME_SIZE_def)
  then have "sint (slot_len ?mem ?k) = int (unat (slot_len ?mem ?k))" by (rule sint_small)
  moreover have "ProcessPacket (packet_ptr ?mem ?k) (int (unat (slot_len ?mem ?k))) w
      = Inr (0, processed (packet_ptr ?mem ?k) (int (unat (slot_len ?mem ?k))) w)"
    using assms by (intro ProcessPacket_roomy packet_ptr_roomy) simp_all
  ultimately show ?thesis
    by (simp add: consume_frame_eq [OF assms(1)] Let_def pbind_step)
qed

text \<open>Whatever the frame holds: the effect of a frame that has been consumed on the ring.\<close>

lemma consume_frame_Inr:
  assumes "frame_num v < NUM_FRAMES" and "consume_frame v w = Inr (v', w')" and "tally_inv w"
  shows "v' = consumed v w \<and> tally_inv w' \<and> total_count w' = total_count w + 1 \<and>
    ring_mem w' = store64 (frame_num v * FRAME_SIZE) 0 (ring_mem w)"
proof -
  let ?mem = "ring_mem w" and ?k = "frame_num v"
  obtain r w1 where 1: "ProcessPacket (packet_ptr ?mem ?k) (sint (slot_len ?mem ?k)) w = Inr (r, w1)"
    and 2: "v' = consumed v w" "w' = ring_mem_update (store64 (?k * FRAME_SIZE) 0) w1"
    using assms(2) by (auto simp: consume_frame_eq [OF assms(1)] Let_def pbind_Inr_iff modify_def)
  have "ring_mem w1 = ring_mem w"
    using ProcessPacket_Inr [OF 1] by (cases w; cases w1) simp
  moreover have "tally_inv w1 \<and> total_count w1 = total_count w + 1"
    using ProcessPacket_Inr [OF 1] assms(3) by (auto simp: tally_inv_def counters_def counted_def Let_def)
  ultimately show ?thesis using 2 by (simp add: tally_inv_def)
qed

section \<open>Positions\<close>

lemma slots_Cons: "k < NUM_FRAMES \<Longrightarrow> slots k = k # tl (slots k)"
  by (simp add: slots_def NUM_FRAMES_def upt_conv_Cons)

lemma slots_next:
  assumes "k < NUM_FRAMES"
  shows "slots ((k + 1) mod NUM_FRAMES) = tl (slots k) @ [k]"
proof (rule nth_equalityI)
  show "length (slots ((k + 1) mod NUM_FRAMES)) = length (tl (slots k) @ [k])"
    by (simp add: slots_def NUM_FRAMES_def)
  fix i assume i: "i < length (slots ((k + 1) mod NUM_FRAMES))"
  then have lt: "i < 64" by (simp add: slots_def NUM_FRAMES_def)
  show "slots ((k + 1) mod NUM_FRAMES) ! i = (tl (slots k) @ [k]) ! i"
  proof (cases "i < 63")
    case True
    then show ?thesis
      by (simp add: slots_def NUM_FRAMES_def nth_append nth_tl mod_add_left_eq)
  next
    case False
    with lt have "i = 63" by simp
    with assms show ?thesis by (simp add: slots_def NUM_FRAMES_def nth_append mod_add_left_eq)
  qed
qed

lemma position_inj:
  assumes "k < NUM_FRAMES" and "a < NUM_FRAMES" "b < NUM_FRAMES"
    and "(k + a) mod NUM_FRAMES = (k + b) mod NUM_FRAMES"
  shows "a = b"
proof -
  have "((NUM_FRAMES - k) + (k + a)) mod NUM_FRAMES = ((NUM_FRAMES - k) + (k + b)) mod NUM_FRAMES"
    using assms(4) by (metis mod_add_right_eq)
  moreover have "(NUM_FRAMES - k) + (k + a) = a + NUM_FRAMES" "(NUM_FRAMES - k) + (k + b) = b + NUM_FRAMES"
    using assms(1) by simp_all
  ultimately show ?thesis using assms(2,3) by simp
qed

lemma distinct_slots: "k < NUM_FRAMES \<Longrightarrow> distinct (slots k)"
  unfolding slots_def distinct_map by (auto intro!: inj_onI dest: position_inj)

lemma slots_range: "j \<in> set (slots k) \<Longrightarrow> j < NUM_FRAMES"
  by (auto simp: slots_def NUM_FRAMES_def)

lemma nth_slots: "i < NUM_FRAMES \<Longrightarrow> slots k ! i = (k + i) mod NUM_FRAMES"
  by (simp add: slots_def)

lemma length_slots [simp]: "length (slots k) = NUM_FRAMES"
  by (simp add: slots_def)

text \<open>Two states of the region that agree on a frame.\<close>

definition same_slot :: "nat \<Rightarrow> (nat \<Rightarrow> byte) \<Rightarrow> (nat \<Rightarrow> byte) \<Rightarrow> bool" where
  "same_slot j mem mem' \<longleftrightarrow> (\<forall>a. a div FRAME_SIZE = j \<longrightarrow> mem' a = mem a)"

lemma same_slot_at: "same_slot j mem mem' \<Longrightarrow> i < FRAME_SIZE \<Longrightarrow> mem' (j * FRAME_SIZE + i) = mem (j * FRAME_SIZE + i)"
  by (simp add: same_slot_def)

lemma same_slot_view:
  assumes "same_slot j mem mem'"
  shows "slot_ready mem' j = slot_ready mem j" and "slot_frame mem' j = slot_frame mem j"
    and "slot_fits mem' j = slot_fits mem j"
proof -
  note at = same_slot_at [OF assms]
  show "slot_ready mem' j = slot_ready mem j" using at [of 0] by (simp add: slot_ready_def FRAME_SIZE_def)
  have len: "slot_len mem' j = slot_len mem j"
    using at [of 8] at [of 9] at [of 10] at [of 11] by (simp add: slot_len_def FRAME_SIZE_def)
  have mac: "slot_mac mem' j = slot_mac mem j"
    using at [of 16] at [of 17] by (simp add: slot_mac_def FRAME_SIZE_def)
  have "map mem' [j * FRAME_SIZE + slot_mac mem j..<(j + 1) * FRAME_SIZE]
      = map mem [j * FRAME_SIZE + slot_mac mem j..<(j + 1) * FRAME_SIZE]"
  proof (rule map_cong [OF refl])
    fix a assume "a \<in> set [j * FRAME_SIZE + slot_mac mem j..<(j + 1) * FRAME_SIZE]"
    then have "a = j * FRAME_SIZE + (a - j * FRAME_SIZE)" "a - j * FRAME_SIZE < FRAME_SIZE" by auto
    then show "mem' a = mem a" using at [of "a - j * FRAME_SIZE"] by simp
  qed
  then show "slot_frame mem' j = slot_frame mem j" by (simp add: slot_frame_def len mac)
  show "slot_fits mem' j = slot_fits mem j" by (simp add: slot_fits_def len mac)
qed

lemma same_slot_release: "j \<noteq> k \<Longrightarrow> same_slot j mem (store64 (k * FRAME_SIZE) 0 mem)"
  by (auto simp: same_slot_def store64_def FRAME_SIZE_def)

lemma slot_ready_release: "\<not> slot_ready (store64 (k * FRAME_SIZE) 0 mem) k"
  by (simp add: slot_ready_def store64_def)

section \<open>The queue\<close>

text \<open>The frames behind the ready run are not ready: the kernel fills them in order.\<close>

definition ring_inv :: "(nat \<Rightarrow> byte) \<Rightarrow> nat \<Rightarrow> bool" where
  "ring_inv mem k \<longleftrightarrow> k < NUM_FRAMES \<and> (\<forall>j \<in> set (dropWhile (slot_ready mem) (slots k)). \<not> slot_ready mem j)"

lemma ring_queue_Nil: "k < NUM_FRAMES \<Longrightarrow> ring_queue mem k = [] \<longleftrightarrow> \<not> slot_ready mem k"
  by (subst (1) ring_queue_def, subst slots_Cons) simp_all

lemma takeWhile_snoc_false: "\<not> P x \<Longrightarrow> takeWhile P (xs @ [x]) = takeWhile P xs"
  by (induction xs) simp_all

lemma takeWhile_all_false: "\<forall>x \<in> set xs. \<not> P x \<Longrightarrow> takeWhile P xs = []"
  by (cases xs) simp_all

lemma release_front:
  assumes "k < NUM_FRAMES" and "slot_ready mem k"
  shows "ring_queue mem k = slot_frame mem k # ring_queue (store64 (k * FRAME_SIZE) 0 mem) ((k + 1) mod NUM_FRAMES)"
    and "ring_inv mem k \<Longrightarrow> ring_inv (store64 (k * FRAME_SIZE) 0 mem) ((k + 1) mod NUM_FRAMES)"
proof -
  let ?mem = "store64 (k * FRAME_SIZE) 0 mem"
  obtain s where s: "slots k = k # s" using slots_Cons [OF assms(1)] by blast
  have next_s: "slots ((k + 1) mod NUM_FRAMES) = s @ [k]" using slots_next [OF assms(1)] s by simp
  have other: "slot_ready ?mem j = slot_ready mem j" "slot_frame ?mem j = slot_frame mem j" if "j \<in> set s" for j
  proof -
    have "j \<noteq> k" using that distinct_slots [OF assms(1)] s by auto
    then show "slot_ready ?mem j = slot_ready mem j" "slot_frame ?mem j = slot_frame mem j"
      using same_slot_view [OF same_slot_release, of j k mem] by simp_all
  qed
  have tw: "takeWhile (slot_ready ?mem) (s @ [k]) = takeWhile (slot_ready mem) s"
    unfolding takeWhile_snoc_false [of "slot_ready ?mem", OF slot_ready_release]
    using other(1) by (rule takeWhile_cong [OF refl])
  have "map (slot_frame ?mem) (takeWhile (slot_ready mem) s) = map (slot_frame mem) (takeWhile (slot_ready mem) s)"
    using other(2) by (auto dest: set_takeWhileD)
  then show "ring_queue mem k = slot_frame mem k # ring_queue ?mem ((k + 1) mod NUM_FRAMES)"
    using assms(2) by (simp only: ring_queue_def next_s tw s takeWhile.simps list.map if_True)
  assume "ring_inv mem k"
  then have inv: "\<forall>j \<in> set (dropWhile (slot_ready mem) s). \<not> slot_ready mem j"
    using assms(2) s by (simp add: ring_inv_def)
  have dw: "dropWhile (slot_ready ?mem) s = dropWhile (slot_ready mem) s"
    using other(1) by (rule dropWhile_cong [OF refl])
  have "\<not> slot_ready ?mem j" if "j \<in> set (dropWhile (slot_ready ?mem) (s @ [k]))" for j
  proof (cases "j = k")
    case True
    then show ?thesis using slot_ready_release by simp
  next
    case False
    then have "j \<in> set (dropWhile (slot_ready mem) s)"
      using that by (auto simp: dropWhile_append dw split: if_splits)
    then show ?thesis using inv other(1) set_dropWhileD by metis
  qed
  moreover have "(k + 1) mod NUM_FRAMES < NUM_FRAMES" by (simp add: NUM_FRAMES_def)
  ultimately show "ring_inv ?mem ((k + 1) mod NUM_FRAMES)"
    unfolding ring_inv_def next_s by blast
qed

lemma length_ring_queue: "length (ring_queue mem k) \<le> NUM_FRAMES"
  using length_takeWhile_le [of "slot_ready mem" "slots k"] by (simp add: ring_queue_def)

lemma fill_back:
  assumes "ring_inv mem k" and h: "h = (k + length (ring_queue mem k)) mod NUM_FRAMES"
    and "\<not> slot_ready mem h" and "\<And>j. j \<noteq> h \<Longrightarrow> same_slot j mem mem'" and "slot_ready mem' h"
  shows "ring_queue mem' k = ring_queue mem k @ [slot_frame mem' h] \<and> ring_inv mem' k"
proof -
  have k: "k < NUM_FRAMES" using assms(1) by (simp add: ring_inv_def)
  define r d where "r = takeWhile (slot_ready mem) (slots k)" and "d = dropWhile (slot_ready mem) (slots k)"
  have rd: "slots k = r @ d" by (simp add: r_def d_def)
  have len: "length (ring_queue mem k) = length r" by (simp add: ring_queue_def r_def)
  have "length r \<noteq> NUM_FRAMES"
  proof
    assume full: "length r = NUM_FRAMES"
    then have "h = k" using k by (simp add: h len)
    moreover have "ring_queue mem k \<noteq> []" using full len by (auto simp: NUM_FRAMES_def)
    ultimately show False using ring_queue_Nil [OF k, of mem] assms(3) by simp
  qed
  moreover have "length r \<le> NUM_FRAMES" using length_ring_queue [of mem k] len by simp
  ultimately have lt: "length r < NUM_FRAMES" by simp
  have "NUM_FRAMES = length r + length d" using length_slots [of k] unfolding rd by simp
  with lt have "d \<noteq> []" by auto
  then obtain e where d: "d = slots k ! length r # e"
    by (cases d) (simp_all add: rd nth_append)
  have "slots k ! length r = h" using nth_slots [OF lt, of k] by (simp add: h len)
  with d rd have s: "slots k = r @ h # e" and d: "d = h # e" by simp_all
  have other: "slot_ready mem' j = slot_ready mem j" "slot_frame mem' j = slot_frame mem j" if "j \<in> set r \<union> set e" for j
  proof -
    have "j \<noteq> h" using that distinct_slots [OF k] by (auto simp: s)
    then show "slot_ready mem' j = slot_ready mem j" "slot_frame mem' j = slot_frame mem j"
      using same_slot_view [OF assms(4)] by simp_all
  qed
  have yes: "slot_ready mem' j" if "j \<in> set r" for j
    using that other(1) [of j] by (auto simp: r_def dest: set_takeWhileD)
  have no: "\<not> slot_ready mem' j" if "j \<in> set e" for j
    using that other(1) [of j] assms(1) d by (simp add: ring_inv_def d_def)
  have tw: "takeWhile (slot_ready mem') (slots k) = r @ [h]" and dw: "dropWhile (slot_ready mem') (slots k) = e"
    using yes no assms(5) by (auto simp: s takeWhile_append dropWhile_append takeWhile_all_false intro: dropWhile_eq_self_iff [THEN iffD2])
  have "map (slot_frame mem') r = map (slot_frame mem) r" using other(2) by simp
  then have "ring_queue mem' k = ring_queue mem k @ [slot_frame mem' h]"
    by (simp only: ring_queue_def tw r_def [symmetric] map_append list.map)
  then show ?thesis using k no by (simp add: ring_inv_def dw)
qed

section \<open>The program against the kernel\<close>

text \<open>
  Runs of a body with the kernel. The kernel fills frame \<open>h\<close> when it is not ready, leaves every other
  frame alone, and goes on to the next one; a packet that finds its frame still ready is dropped and
  changes nothing. The two lists are the frames filled and the frames the program has moved past, in
  order.
\<close>

inductive ring_steps ::
    "('e \<Rightarrow> ring_vars \<Rightarrow> ('w ring_world_scheme, ring_vars outcome) prog) \<Rightarrow> ring_vars \<Rightarrow> 'w ring_world_scheme \<Rightarrow>
     nat \<Rightarrow> (u32 \<times> byte list) list \<Rightarrow> (u32 \<times> byte list) list \<Rightarrow> ring_vars \<Rightarrow> 'w ring_world_scheme \<Rightarrow> bool"
  for body v0 w0 where
  Start: "frame_num v0 = 0 \<Longrightarrow> tally_inv w0 \<Longrightarrow> \<forall>j < NUM_FRAMES. \<not> slot_ready (ring_mem w0) j \<Longrightarrow>
    ring_steps body v0 w0 0 [] [] v0 w0"
| Kernel: "ring_steps body v0 w0 h filled taken v w \<Longrightarrow> \<not> slot_ready (ring_mem w) h \<Longrightarrow>
    slot_ready mem' h \<Longrightarrow> (\<And>j. j \<noteq> h \<Longrightarrow> same_slot j (ring_mem w) mem') \<Longrightarrow>
    ring_steps body v0 w0 ((h + 1) mod NUM_FRAMES) (filled @ [slot_frame mem' h]) taken v (w\<lparr>ring_mem := mem'\<rparr>)"
| Program: "ring_steps body v0 w0 h filled taken v w \<Longrightarrow> body e v w = Inr (Continue v', w') \<Longrightarrow>
    ring_steps body v0 w0 h filled
      (if frame_num v' = frame_num v then taken else taken @ [slot_frame (ring_mem w) (frame_num v)]) v' w'"

text \<open>
  The contract of a body: when it goes on, it has either changed nothing, or consumed the current
  frame, that was ready, and moved to the next one.
\<close>

locale ring_consumer =
  fixes body :: "'e \<Rightarrow> ring_vars \<Rightarrow> ('w ring_world_scheme, ring_vars outcome) prog"
  assumes body_Continue: "frame_num v < NUM_FRAMES \<Longrightarrow> tally_inv w \<Longrightarrow> body e v w = Inr (Continue v', w') \<Longrightarrow>
    v' = v \<and> w' = w \<or>
    slot_ready (ring_mem w) (frame_num v) \<and> v' = consumed v w \<and> tally_inv w' \<and>
      total_count w' = total_count w + 1 \<and> ring_mem w' = store64 (frame_num v * FRAME_SIZE) 0 (ring_mem w)"
begin

lemma next_frame: "k < NUM_FRAMES \<Longrightarrow> (k + 1) mod NUM_FRAMES \<noteq> k"
  by (cases "k + 1 = NUM_FRAMES") (auto simp: NUM_FRAMES_def)

text \<open>First in, first out, nothing lost: with the invariant of the ring and the statistics.\<close>

lemma fifo:
  "ring_steps body v0 w0 h filled taken v w \<Longrightarrow>
     filled = taken @ ring_queue (ring_mem w) (frame_num v) \<and>
     h = (frame_num v + length (ring_queue (ring_mem w) (frame_num v))) mod NUM_FRAMES \<and>
     ring_inv (ring_mem w) (frame_num v) \<and>
     stats v = fold count_packet (map (\<lambda>f. ucast (fst f)) taken) (stats v0) \<and>
     tally_inv w \<and> total_count w = total_count w0 + int (length taken)"
proof (induction rule: ring_steps.induct)
  case Start
  then have "ring_queue (ring_mem w0) 0 = []"
    using ring_queue_Nil [of 0 "ring_mem w0"] by (simp add: NUM_FRAMES_def)
  moreover have "ring_inv (ring_mem w0) 0"
    unfolding ring_inv_def
  proof (intro conjI ballI)
    fix j assume "j \<in> set (dropWhile (slot_ready (ring_mem w0)) (slots 0))"
    then have "j < NUM_FRAMES" by (rule slots_range [OF set_dropWhileD])
    then show "\<not> slot_ready (ring_mem w0) j" using Start by blast
  qed (simp add: NUM_FRAMES_def)
  ultimately show ?case using Start by simp
next
  case (Kernel h filled taken v w mem')
  then have "ring_queue mem' (frame_num v) = ring_queue (ring_mem w) (frame_num v) @ [slot_frame mem' h] \<and>
      ring_inv mem' (frame_num v)"
    by (intro fill_back) auto
  with Kernel show ?case by (simp add: tally_inv_def mod_Suc_eq)
next
  case (Program h filled taken v w e v' w')
  then have k: "frame_num v < NUM_FRAMES" by (simp add: ring_inv_def)
  from body_Continue [OF k _ Program.hyps(2)] Program.IH
  consider "v' = v" "w' = w"
    | "slot_ready (ring_mem w) (frame_num v)" "v' = consumed v w" "tally_inv w'"
      "total_count w' = total_count w + 1" "ring_mem w' = store64 (frame_num v * FRAME_SIZE) 0 (ring_mem w)"
    by blast
  then show ?case
  proof cases
    case 1
    with Program.IH show ?thesis by simp
  next
    case 2
    note front = release_front [OF k 2(1)]
    have moved: "frame_num v' = (frame_num v + 1) mod NUM_FRAMES" "frame_num v' \<noteq> frame_num v"
      using 2(2) next_frame [OF k] by (simp_all add: consumed_def)
    have "stats v' = count_packet (ucast (fst (slot_frame (ring_mem w) (frame_num v)))) (stats v)"
      using 2(2) by (simp add: consumed_def slot_frame_def)
    then show ?thesis
      using Program.IH 2 front moved by (simp add: mod_add_left_eq)
  qed
qed

end

lemma noPolling_body_eq:
  "frame_num v < NUM_FRAMES \<Longrightarrow> noPolling_body v w =
     (if slot_ready (ring_mem w) (frame_num v) then pbind (consume_frame v) (\<lambda>v. ret (Continue v)) w
      else Inr (Continue v, w))"
  by (simp add: noPolling_body_def pbind_step frame_ready_run)

text \<open>The test for the error bits looks at the field \<^verbatim>\<open>events\<close> and is never true.\<close>

lemma polling_body_eq:
  "frame_num v < NUM_FRAMES \<Longrightarrow> polling_body POLLIN r e v w =
     (if r > 0
      then if slot_ready (ring_mem w) (frame_num v) then pbind (consume_frame v) (\<lambda>v. ret (Continue v)) w
           else Inr (Break v, w)
      else if r = 0 then Inr (Continue v, w)
      else Inr (Break v, w\<lparr>errout := errout w @ ''poll: '' @ e @ nl\<rparr>))"
  by (simp add: polling_body_def POLLIN_def POLLHUP_def POLLRDHUP_def POLLERR_def POLLNVAL_def
      pbind_step frame_ready_run)

interpretation nopoll: ring_consumer "\<lambda>(_ :: unit). noPolling_body"
proof
  fix v v' :: ring_vars and w w' :: "'a ring_world_scheme"
  assume k: "frame_num v < NUM_FRAMES" and inv: "tally_inv w" and b: "noPolling_body v w = Inr (Continue v', w')"
  show "v' = v \<and> w' = w \<or> slot_ready (ring_mem w) (frame_num v) \<and> v' = consumed v w \<and> tally_inv w' \<and>
      total_count w' = total_count w + 1 \<and> ring_mem w' = store64 (frame_num v * FRAME_SIZE) 0 (ring_mem w)"
    using b consume_frame_Inr [OF k _ inv] by (auto simp: noPolling_body_eq [OF k] pbind_Inr_iff split: if_splits)
qed

interpretation poll: ring_consumer "\<lambda>(r, e). polling_body POLLIN r e"
proof
  fix re :: "int \<times> string" and v v' :: ring_vars and w w' :: "'a ring_world_scheme"
  assume k: "frame_num v < NUM_FRAMES" and inv: "tally_inv w"
    and b: "(case re of (r, e) \<Rightarrow> polling_body POLLIN r e) v w = Inr (Continue v', w')"
  show "v' = v \<and> w' = w \<or> slot_ready (ring_mem w) (frame_num v) \<and> v' = consumed v w \<and> tally_inv w' \<and>
      total_count w' = total_count w + 1 \<and> ring_mem w' = store64 (frame_num v * FRAME_SIZE) 0 (ring_mem w)"
    using b consume_frame_Inr [OF k _ inv]
    by (cases re) (auto simp: polling_body_eq [OF k] pbind_Inr_iff split: if_splits)
qed

section \<open>Draining the ring\<close>

text \<open>The frames the program would take next, all of which it can process.\<close>

definition queue_fits :: "(nat \<Rightarrow> byte) \<Rightarrow> nat \<Rightarrow> bool" where
  "queue_fits mem k \<longleftrightarrow> (\<forall>j \<in> set (takeWhile (slot_ready mem) (slots k)). slot_fits mem j)"

lemma queue_fits_release:
  assumes "k < NUM_FRAMES" and "slot_ready mem k" and "queue_fits mem k"
  shows "slot_fits mem k" and "queue_fits (store64 (k * FRAME_SIZE) 0 mem) ((k + 1) mod NUM_FRAMES)"
proof -
  let ?mem = "store64 (k * FRAME_SIZE) 0 mem"
  obtain s where s: "slots k = k # s" using slots_Cons [OF assms(1)] by blast
  have next_s: "slots ((k + 1) mod NUM_FRAMES) = s @ [k]" using slots_next [OF assms(1)] s by simp
  have other: "slot_ready ?mem j = slot_ready mem j" "slot_fits ?mem j = slot_fits mem j" if "j \<in> set s" for j
  proof -
    have "j \<noteq> k" using that distinct_slots [OF assms(1)] s by auto
    then show "slot_ready ?mem j = slot_ready mem j" "slot_fits ?mem j = slot_fits mem j"
      using same_slot_view [OF same_slot_release, of j k mem] by simp_all
  qed
  show "slot_fits mem k" using assms s by (simp add: queue_fits_def)
  have tw: "takeWhile (slot_ready ?mem) (s @ [k]) = takeWhile (slot_ready mem) s"
    unfolding takeWhile_snoc_false [of "slot_ready ?mem", OF slot_ready_release]
    using other(1) by (rule takeWhile_cong [OF refl])
  have fits: "\<forall>j \<in> set (takeWhile (slot_ready mem) s). slot_fits mem j"
    using assms s by (simp add: queue_fits_def)
  show "queue_fits ?mem ((k + 1) mod NUM_FRAMES)"
    unfolding queue_fits_def next_s tw
  proof
    fix j assume j: "j \<in> set (takeWhile (slot_ready mem) s)"
    then have "slot_fits mem j" using fits by blast
    then show "slot_fits ?mem j" using other(2) [of j] set_takeWhileD [OF j] by blast
  qed
qed

text \<open>What consuming a frame leaves alone.\<close>

definition same_process :: "'w ring_world_scheme \<Rightarrow> 'w ring_world_scheme \<Rightarrow> bool" where
  "same_process w w' \<longleftrightarrow> running w' = running w \<and> out w' = out w \<and> ring_world.more w' = ring_world.more w"

lemma same_process_refl [simp]: "same_process w w"
  by (simp add: same_process_def)

lemma same_process_trans: "same_process w w' \<Longrightarrow> same_process w' w'' \<Longrightarrow> same_process w w''"
  by (simp add: same_process_def)

lemma same_process_processed:
  "same_process w ((processed p n w)\<lparr>ring_mem := mem\<rparr>)"
  by (simp add: same_process_def processed_def logged_def addressed_def counted_def Let_def)

text \<open>A consumer that, for some input, consumes whatever frame is ready and can be processed.\<close>

locale ring_drainer = ring_consumer body
  for body :: "'e \<Rightarrow> ring_vars \<Rightarrow> ('w ring_world_scheme, ring_vars outcome) prog" +
  fixes go :: 'e
  assumes body_total: "frame_num v < NUM_FRAMES \<Longrightarrow> slot_ready (ring_mem w) (frame_num v) \<Longrightarrow>
    slot_fits (ring_mem w) (frame_num v) \<Longrightarrow> log_open w \<Longrightarrow> tally_inv w \<Longrightarrow> total_count w < INT_MAX \<Longrightarrow>
    \<exists>w'. body go v w = Inr (Continue (consumed v w), w') \<and> log_open w' \<and> same_process w w'"
begin

lemma drain:
  assumes "frame_num v < NUM_FRAMES" and "queue_fits (ring_mem w) (frame_num v)" and "log_open w"
    and "tally_inv w" and "total_count w + int n \<le> INT_MAX" and "n \<le> length (ring_queue (ring_mem w) (frame_num v))"
    and "running w"
  shows "\<exists>v' w'. (\<forall>es. while_running body (replicate n (Input go) @ es) v w = while_running body es v' w') \<and>
    same_process w w' \<and> log_open w' \<and>
    frame_num v' = (frame_num v + n) mod NUM_FRAMES \<and>
    ring_queue (ring_mem w') (frame_num v') = drop n (ring_queue (ring_mem w) (frame_num v)) \<and>
    stats v' = fold count_packet (map (\<lambda>f. ucast (fst f)) (take n (ring_queue (ring_mem w) (frame_num v)))) (stats v) \<and>
    tally_inv w' \<and> total_count w' = total_count w + int n"
  using assms
proof (induction n arbitrary: v w)
  case 0
  then show ?case by (intro exI [of _ v] exI [of _ w]) simp
next
  case (Suc n)
  let ?mem = "ring_mem w" and ?k = "frame_num v"
  have ready: "slot_ready ?mem ?k" using Suc.prems(1,6) ring_queue_Nil [of ?k ?mem] by fastforce
  obtain w1 where w1: "body go v w = Inr (Continue (consumed v w), w1)" "log_open w1" "same_process w w1"
    using body_total [OF Suc.prems(1) ready queue_fits_release(1) [OF Suc.prems(1) ready Suc.prems(2)] Suc.prems(3,4)]
      Suc.prems(5) by auto
  have run1: "running w1" using w1(3) Suc.prems(7) by (simp add: same_process_def)
  define v1 where "v1 = consumed v w"
  have v1: "frame_num v1 = (?k + 1) mod NUM_FRAMES" "frame_num v1 < NUM_FRAMES"
    by (simp_all add: v1_def consumed_def NUM_FRAMES_def)
  have "v1 \<noteq> v" using next_frame [OF Suc.prems(1)] v1(1) by metis
  with body_Continue [OF Suc.prems(1,4) w1(1)] have mem: "ring_mem w1 = store64 (?k * FRAME_SIZE) 0 ?mem"
    and tot: "tally_inv w1" "total_count w1 = total_count w + 1"
    by (auto simp: v1_def)
  have q: "ring_queue ?mem ?k = slot_frame ?mem ?k # ring_queue (ring_mem w1) (frame_num v1)"
    using release_front(1) [OF Suc.prems(1) ready] by (simp only: mem v1(1))
  have "queue_fits (ring_mem w1) (frame_num v1)"
    using queue_fits_release(2) [OF Suc.prems(1) ready Suc.prems(2)] by (simp only: mem v1(1))
  moreover have "total_count w1 + int n \<le> INT_MAX" using Suc.prems(5) tot(2) by simp
  moreover have "n \<le> length (ring_queue (ring_mem w1) (frame_num v1))" using Suc.prems(6) by (simp add: q)
  ultimately obtain v' w' where
    run: "\<And>es. while_running body (replicate n (Input go) @ es) v1 w1 = while_running body es v' w'"
    and same: "same_process w1 w'" and r: "log_open w'"
    "frame_num v' = (frame_num v1 + n) mod NUM_FRAMES"
    "ring_queue (ring_mem w') (frame_num v') = drop n (ring_queue (ring_mem w1) (frame_num v1))"
    "stats v' = fold count_packet (map (\<lambda>f. ucast (fst f)) (take n (ring_queue (ring_mem w1) (frame_num v1)))) (stats v1)"
    "tally_inv w'" "total_count w' = total_count w1 + int n"
    using Suc.IH [OF v1(2) _ w1(2) tot(1) _ _ run1] by blast
  have "stats v1 = count_packet (ucast (fst (slot_frame ?mem ?k))) (stats v)"
    by (simp add: v1_def consumed_def slot_frame_def)
  moreover have "while_running body (replicate (Suc n) (Input go) @ es) v w = while_running body es v' w'" for es
    using w1(1) run Suc.prems(7) by (simp add: pbind_step v1_def)
  moreover have "(frame_num v1 + n) mod NUM_FRAMES = (?k + Suc n) mod NUM_FRAMES"
    by (simp add: v1(1) mod_add_left_eq)
  moreover have "same_process w w'" using w1(3) same by (rule same_process_trans)
  ultimately show ?case using r tot by (intro exI [of _ v'] exI [of _ w']) (simp add: q)
qed

end

lemma log_open_ring [simp]: "log_open (w\<lparr>ring_mem := mem\<rparr>) = log_open w"
  by (simp add: log_open_def)

lemma consume_and_continue:
  assumes "frame_num v < NUM_FRAMES" and "slot_fits (ring_mem w) (frame_num v)"
    and "log_open w" and "tally_inv w" and "total_count w < INT_MAX"
  shows "\<exists>w'. pbind (consume_frame v) (\<lambda>v. ret (Continue v)) w = Inr (Continue (consumed v w), w') \<and>
    log_open w' \<and> same_process w w'"
  using consume_frame_run [OF assms] assms(3) by (simp add: pbind_step same_process_processed)

interpretation nopoll: ring_drainer "\<lambda>(_ :: unit). noPolling_body" "()"
  by unfold_locales (simp add: noPolling_body_eq consume_and_continue)

interpretation poll: ring_drainer "\<lambda>(r, e). polling_body POLLIN r e" "(1, [])"
  by unfold_locales (simp add: polling_body_eq consume_and_continue)

lemma modify_ring_id: "modify (ring_mem_update id) = ret ()"
  by (rule ext) (simp add: modify_def ret_def)

text \<open>Scripts in which the kernel does nothing but what it has done before, and that end with a signal.\<close>

lemma noPolling_loop_quiet:
  "noPolling_loop (replicate n (Input id) @ [Signal s]) =
     while_running (\<lambda>(_ :: unit). noPolling_body) (replicate n (Input ()) @ [Signal s])"
  unfolding noPolling_loop_def
  by (rule while_running_replicate) (simp_all add: modify_ring_id fun_eq_iff)

lemma polling_loop_quiet:
  "polling_loop (replicate n (Input \<lparr>kernel_did = id, poll_result = 1, poll_error = []\<rparr>) @ [Signal s]) =
     while_running (\<lambda>(r, e). polling_body POLLIN r e) (replicate n (Input (1, [])) @ [Signal s])"
  unfolding polling_loop_def
  by (rule while_running_replicate) (simp_all add: modify_ring_id fun_eq_iff)

text \<open>The state a stop signal leaves.\<close>

definition interrupted :: "'w ring_world_scheme \<Rightarrow> 'w ring_world_scheme" where
  "interrupted w = (grown 0 (''Received terminal signal. Stop the program'' @ nl) w)\<lparr>running := False\<rparr>"

lemma while_running_signal:
  "while_running body [Signal SIGTERM] v w = Inr (Done v, interrupted w)"
  by (simp add: signal_handler_def interrupted_def pbind_assoc)

lemma interrupted_fields [simp]:
  "ring_mem (interrupted w) = ring_mem w" "total_count (interrupted w) = total_count w"
  "tally_inv (interrupted w) = tally_inv w" "log_open (interrupted w) = log_open w" "\<not> running (interrupted w)"
  by (simp_all add: interrupted_def grown_def tally_inv_def log_open_def)

text \<open>The state after \<open>n\<close> frames of the queue have been taken.\<close>

definition drained :: "nat \<Rightarrow> ring_vars \<Rightarrow> 'w ring_world_scheme \<Rightarrow> ring_vars \<Rightarrow> 'w ring_world_scheme \<Rightarrow> bool" where
  "drained n v w v' w' \<longleftrightarrow> same_process w w' \<and> log_open w' \<and> frame_num v' = (frame_num v + n) mod NUM_FRAMES \<and>
     ring_queue (ring_mem w') (frame_num v') = drop n (ring_queue (ring_mem w) (frame_num v)) \<and>
     stats v' = fold count_packet (map (\<lambda>f. ucast (fst f)) (take n (ring_queue (ring_mem w) (frame_num v)))) (stats v) \<and>
     tally_inv w' \<and> total_count w' = total_count w + int n"

lemma noPolling_drained:
  assumes "frame_num v < NUM_FRAMES" and "queue_fits (ring_mem w) (frame_num v)" and "log_open w"
    and "tally_inv w" and "total_count w + int n \<le> INT_MAX"
    and "n \<le> length (ring_queue (ring_mem w) (frame_num v))" and "running w"
  shows "\<exists>v' w'. noPolling_loop (replicate n (Input id) @ [Signal SIGTERM]) v w = Inr (Done v', interrupted w') \<and>
    drained n v w v' w'"
  using nopoll.drain [OF assms] while_running_signal unfolding noPolling_loop_quiet drained_def by metis

lemma polling_drained:
  assumes "frame_num v < NUM_FRAMES" and "queue_fits (ring_mem w) (frame_num v)" and "log_open w"
    and "tally_inv w" and "total_count w + int n \<le> INT_MAX"
    and "n \<le> length (ring_queue (ring_mem w) (frame_num v))" and "running w"
  shows "\<exists>v' w'. polling_loop (replicate n (Input \<lparr>kernel_did = id, poll_result = 1, poll_error = []\<rparr>) @ [Signal SIGTERM]) v w = Inr (Done v', interrupted w') \<and>
    drained n v w v' w'"
  using poll.drain [OF assms] while_running_signal unfolding polling_loop_quiet drained_def by metis

section \<open>Properties\<close>

text \<open>
  C3: the loop without polling refines a queue. In every run with a kernel that fills free frames in
  order, from any region without ready frames, the frames filled are the frames the program has taken
  followed by the ready run it sees, in the same order: none is lost, skipped or taken twice. The
  statistics count the frames taken and the sum of their lengths, and the total of the protocol
  counters has grown by one for each.
\<close>

theorem noPolling_fifo:
  assumes "ring_steps (\<lambda>(_ :: unit). noPolling_body) v0 w0 h filled taken v w"
  shows "filled = taken @ ring_queue (ring_mem w) (frame_num v) \<and>
    packets_processed (stats v) = packets_processed (stats v0) + of_nat (length taken) \<and>
    bytes_processed (stats v) = bytes_processed (stats v0) + (\<Sum>f\<leftarrow>taken. ucast (fst f)) \<and>
    tally_inv w \<and> total_count w = total_count w0 + int (length taken)"
  using nopoll.fifo [OF assms] by (simp add: fold_count_packet)

text \<open>
  C8: the same for the loop with polling, whatever \<^verbatim>\<open>poll\<close> returns.
\<close>

theorem polling_fifo:
  assumes "ring_steps (\<lambda>(r, e). polling_body POLLIN r e) v0 w0 h filled taken v w"
  shows "filled = taken @ ring_queue (ring_mem w) (frame_num v) \<and>
    packets_processed (stats v) = packets_processed (stats v0) + of_nat (length taken) \<and>
    bytes_processed (stats v) = bytes_processed (stats v0) + (\<Sum>f\<leftarrow>taken. ucast (fst f)) \<and>
    tally_inv w \<and> total_count w = total_count w0 + int (length taken)"
  using poll.fifo [OF assms] by (simp add: fold_count_packet)

text \<open>A run for the examples: the kernel fills the first frame, the program takes it.\<close>

definition start_ring :: ring_world where
  "start_ring = afp_world.extend start_afp \<lparr>running = True, ring_mem = \<lambda>_. 0\<rparr>"

definition start_vars :: ring_vars where
  "start_vars = \<lparr>frame_num = 0, stats = zero_stats\<rparr>"

definition one_frame :: "nat \<Rightarrow> byte" where
  "one_frame = (\<lambda>_. 0)(0 := 1)"

lemma start_ring_fields [simp]:
  "ring_mem start_ring = (\<lambda>_. 0)" "log_open start_ring" "tally_inv start_ring" "total_count start_ring = 0" "running start_ring"
  by (simp_all add: start_ring_def start_afp_def afp_world.defs log_open_def tally_inv_def)

lemma one_frame_slot: "slot_ready one_frame 0" "slot_fits one_frame 0" "fst (slot_frame one_frame 0) = 0"
  by (simp_all add: one_frame_def slot_ready_def slot_fits_def slot_mac_def slot_len_def slot_frame_def
      FRAME_SIZE_def Let_def le2_def le4_def)

lemma one_frame_filled:
  "ring_steps body start_vars start_ring 1 [slot_frame one_frame 0] [] start_vars (start_ring\<lparr>ring_mem := one_frame\<rparr>)"
proof -
  have "ring_steps body start_vars start_ring 0 [] [] start_vars start_ring"
    by (rule ring_steps.Start) (simp_all add: start_vars_def slot_ready_def)
  then have "ring_steps body start_vars start_ring ((0 + 1) mod NUM_FRAMES) ([] @ [slot_frame one_frame 0]) []
      start_vars (start_ring\<lparr>ring_mem := one_frame\<rparr>)"
    by (rule ring_steps.Kernel)
      (simp_all add: slot_ready_def one_frame_slot(1) [unfolded slot_ready_def],
        auto simp: same_slot_def one_frame_def FRAME_SIZE_def)
  then show ?thesis by (simp add: NUM_FRAMES_def)
qed

lemma one_frame_taken:
  assumes "\<And>w :: ring_world. slot_ready (ring_mem w) 0 \<Longrightarrow> body e start_vars w =
    pbind (consume_frame start_vars) (\<lambda>v. ret (Continue v)) w"
  shows "\<exists>v w. ring_steps body start_vars start_ring 1 [slot_frame one_frame 0] [slot_frame one_frame 0] v w"
proof -
  let ?w = "start_ring\<lparr>ring_mem := one_frame\<rparr>"
  have k: "frame_num start_vars = 0" by (simp add: start_vars_def)
  have inv: "log_open ?w" "tally_inv ?w" "total_count ?w < INT_MAX"
    using start_ring_fields by (simp_all add: log_open_def tally_inv_def INT_MAX_def)
  obtain w' where "pbind (consume_frame start_vars) (\<lambda>v. ret (Continue v)) ?w = Inr (Continue (consumed start_vars ?w), w')"
    using consume_and_continue [OF _ _ inv, of start_vars] one_frame_slot k by (auto simp: NUM_FRAMES_def)
  then have "body e start_vars ?w = Inr (Continue (consumed start_vars ?w), w')"
    using assms [of ?w] one_frame_slot by simp
  from ring_steps.Program [where body = body and e = e, OF one_frame_filled this]
  have "ring_steps body start_vars start_ring 1 [slot_frame one_frame 0] [slot_frame one_frame 0]
      (consumed start_vars ?w) w'"
    by (simp add: consumed_def k NUM_FRAMES_def)
  then show ?thesis by blast
qed

theorem noPolling_fifo_witness:
  "\<exists>(v :: ring_vars) (w :: ring_world). [slot_frame one_frame 0] = [slot_frame one_frame 0] @ ring_queue (ring_mem w) (frame_num v) \<and>
     packets_processed (stats v) = packets_processed (stats start_vars) + 1 \<and>
     total_count w = total_count start_ring + 1"
proof -
  have "\<exists>v w. ring_steps (\<lambda>(_ :: unit). noPolling_body) start_vars start_ring 1 [slot_frame one_frame 0]
      [slot_frame one_frame 0] v w"
    by (rule one_frame_taken) (simp add: noPolling_body_eq start_vars_def NUM_FRAMES_def)
  then obtain v w where "ring_steps (\<lambda>(_ :: unit). noPolling_body) start_vars start_ring 1 [slot_frame one_frame 0]
      [slot_frame one_frame 0] v w" by blast
  from noPolling_fifo [OF this] show ?thesis
    by (intro exI [of _ v] exI [of _ w]) simp
qed

theorem polling_fifo_witness:
  "\<exists>(v :: ring_vars) (w :: ring_world). [slot_frame one_frame 0] = [slot_frame one_frame 0] @ ring_queue (ring_mem w) (frame_num v) \<and>
     packets_processed (stats v) = packets_processed (stats start_vars) + 1 \<and>
     total_count w = total_count start_ring + 1"
proof -
  have "\<exists>v w. ring_steps (\<lambda>(r, e). polling_body POLLIN r e) start_vars start_ring 1 [slot_frame one_frame 0]
      [slot_frame one_frame 0] v w"
    by (rule one_frame_taken [where e = "(1, [])"]) (simp add: polling_body_eq start_vars_def NUM_FRAMES_def)
  then obtain v w where "ring_steps (\<lambda>(r, e). polling_body POLLIN r e) start_vars start_ring 1 [slot_frame one_frame 0]
      [slot_frame one_frame 0] v w" by blast
  from polling_fifo [OF this] show ?thesis
    by (intro exI [of _ v] exI [of _ w]) simp
qed

text \<open>
  C12: with an open log and packets that fit their frames, \<open>n\<close> iterations of either loop take the
  first \<open>n\<close> ready frames, in order, without a fault, and a termination signal then ends the loop:
  the frame number advances modulo 64, the rest of the queue is left as it was, and the statistics
  and the counters grow by those frames.
\<close>

theorem loops_drain:
  assumes "frame_num v < NUM_FRAMES" and "queue_fits (ring_mem w) (frame_num v)" and "log_open w"
    and "tally_inv w" and "total_count w + int n \<le> INT_MAX"
    and "n \<le> length (ring_queue (ring_mem w) (frame_num v))" and "running w"
    and "m = noPolling_loop (replicate n (Input id) @ [Signal SIGTERM]) v \<or>
         m = polling_loop (replicate n (Input \<lparr>kernel_did = id, poll_result = 1, poll_error = []\<rparr>)
                           @ [Signal SIGTERM]) v"
  shows "\<exists>v' w'. m w = Inr (Done v', w') \<and> frame_num v' = (frame_num v + n) mod NUM_FRAMES \<and>
    ring_queue (ring_mem w') (frame_num v') = drop n (ring_queue (ring_mem w) (frame_num v)) \<and>
    packets_processed (stats v') = packets_processed (stats v) + of_nat n \<and>
    bytes_processed (stats v') = bytes_processed (stats v) +
      (\<Sum>f\<leftarrow>take n (ring_queue (ring_mem w) (frame_num v)). ucast (fst f)) \<and>
    tally_inv w' \<and> total_count w' = total_count w + int n"
proof -
  obtain v' w' where "m w = Inr (Done v', interrupted w')" "drained n v w v' w'"
    using assms(8) noPolling_drained [OF assms(1-7)] polling_drained [OF assms(1-7)] by blast
  then show ?thesis
    using assms(6) by (intro exI [of _ v'] exI [of _ "interrupted w'"]) (auto simp: drained_def fold_count_packet)
qed

lemma one_frame_queue:
  shows "ring_queue one_frame 0 = [slot_frame one_frame 0]" and "queue_fits one_frame 0"
proof -
  show "ring_queue one_frame 0 = [slot_frame one_frame 0]"
    using nopoll.fifo [OF one_frame_filled] by (simp add: start_vars_def)
  have zero: "j = 0" if "slot_ready one_frame j" for j
    using that by (cases "j = 0") (simp_all add: slot_ready_def one_frame_def FRAME_SIZE_def)
  show "queue_fits one_frame 0"
    unfolding queue_fits_def
  proof
    fix j assume "j \<in> set (takeWhile (slot_ready one_frame) (slots 0))"
    then have "j = 0" using zero set_takeWhileD by fast
    then show "slot_fits one_frame j" using one_frame_slot(2) by simp
  qed
qed

theorem loops_drain_witness:
  "\<exists>v' w'. noPolling_loop [Input id, Signal SIGTERM] start_vars (start_ring\<lparr>ring_mem := one_frame\<rparr>) = Inr (Done v', w') \<and>
     frame_num v' = 1 \<and> ring_queue (ring_mem w') 1 = [] \<and> total_count w' = 1"
proof -
  let ?w = "start_ring\<lparr>ring_mem := one_frame\<rparr>"
  have k: "frame_num start_vars = 0" by (simp add: start_vars_def)
  have inv: "log_open ?w" "tally_inv ?w" "total_count ?w + int 1 \<le> INT_MAX"
    using start_ring_fields by (simp_all add: log_open_def tally_inv_def INT_MAX_def)
  have q: "frame_num start_vars < NUM_FRAMES" "queue_fits (ring_mem ?w) (frame_num start_vars)"
    "1 \<le> length (ring_queue (ring_mem ?w) (frame_num start_vars))" "running ?w"
    by (simp_all add: k NUM_FRAMES_def one_frame_queue)
  obtain v' w' where "noPolling_loop (replicate 1 (Input id) @ [Signal SIGTERM]) start_vars ?w = Inr (Done v', w')"
    "frame_num v' = (frame_num start_vars + 1) mod NUM_FRAMES"
    "ring_queue (ring_mem w') (frame_num v') = drop 1 (ring_queue (ring_mem ?w) (frame_num start_vars))"
    "total_count w' = total_count ?w + int 1"
    using loops_drain [OF q(1,2) inv q(3,4) disjI1 [OF refl]] by blast
  then show ?thesis
    using one_frame_queue by (intro exI [of _ v'] exI [of _ w']) (simp add: k NUM_FRAMES_def)
qed

text \<open>
  The loop with polling leaves the capture, with no message, when \<^verbatim>\<open>poll\<close> reports an event and
  the current frame is not ready, and only a negative result is reported: the error conditions are
  looked for in the field \<^verbatim>\<open>events\<close>, that holds \<^verbatim>\<open>POLLIN\<close>, and are never seen.
\<close>

theorem polling_body_cases:
  assumes "frame_num v < NUM_FRAMES"
  shows "polling_body POLLIN r e v w =
     (if r > 0
      then if slot_ready (ring_mem w) (frame_num v) then pbind (consume_frame v) (\<lambda>v. ret (Continue v)) w
           else Inr (Break v, w)
      else if r = 0 then Inr (Continue v, w)
      else Inr (Break v, w\<lparr>errout := errout w @ ''poll: '' @ e @ nl\<rparr>))"
  using assms by (rule polling_body_eq)

theorem polling_body_cases_witness:
  "polling_body POLLIN 1 [] start_vars start_ring = Inr (Break start_vars, start_ring)"
  using polling_body_cases [of start_vars 1 "[]" start_ring]
  by (simp add: start_vars_def NUM_FRAMES_def slot_ready_def)

text \<open>
  C35: the length taken from a frame is the one of the packet on the wire and not of what was captured:
  a TCP packet whose length goes past the end of the mapped region makes the program read outside it.
\<close>

theorem ring_over_read:
  assumes "frame_num v < NUM_FRAMES" and "slot_ready (ring_mem w) (frame_num v)"
    and "log_open w" and "tally_inv w" and "total_count w < INT_MAX"
    and p: "p = packet_ptr (ring_mem w) (frame_num v)" and "p ! 23 = 6"
    and "l4 p + 20 \<le> length p" and "l4 p + 4 * doff p \<le> length p"
    and "length p < unat (slot_len (ring_mem w) (frame_num v))"
    and "unat (slot_len (ring_mem w) (frame_num v)) < 2147483648"
  shows "noPolling_body v w = Inl OutOfBounds"
proof -
  let ?n = "int (unat (slot_len (ring_mem w) (frame_num v)))"
  have n: "sint (slot_len (ring_mem w) (frame_num v)) = ?n" using assms(11) by (rule sint_small)
  have 23: "rd (padd p 14) 9 = Inr (p ! 23)" using assms(8) by (simp add: l4_def rd_padd)
  have long: "int (length p) < ?n" using assms(10) by (simp only: of_nat_less_iff p)
  then have "\<not> ?n < INT_MIN + int (l4 p + 4 * doff p)" "int (l4 p + 4 * doff p) < ?n"
    using assms(9) headers_le [of p] by (simp_all add: INT_MIN_def)
  moreover have "?n < int 2147483648" using assms(11) by (simp only: of_nat_less_iff)
  then have "?n \<le> INT_MAX" unfolding INT_MAX_def by linarith
  moreover have "log_open (counted 6 w)" using assms(3) by simp
  ultimately have over: "print_tcp_packet p ?n (counted 6 w) = Inl OutOfBounds"
    using assms(8,9) long by (simp add: print_tcp_packet_run l4_def)
  have less: "tcp_count w < INT_MAX" using assms(4,5) by (simp add: tally_inv_def)
  have "ProcessPacket p ?n w = Inl OutOfBounds"
    unfolding ProcessPacket_def Let_def 23 lift_Inr pbind_ret using less assms(5,7) over
    by (simp add: pbind_def bump_run counted_def Let_def)
  then show ?thesis
    using assms(2) by (simp add: noPolling_body_eq [OF assms(1)] consume_frame_eq [OF assms(1)] Let_def pbind_fault n p [symmetric])
qed

text \<open>The last frame of the region, with a TCP packet of 3000 bytes on the wire.\<close>

definition long_frame :: "nat \<Rightarrow> byte" where
  "long_frame = (\<lambda>_. 0)(129024 := 1, 129032 := 0xB8, 129033 := 0x0B, 129040 := 82,
     129120 := 0x45, 129129 := 6, 129152 := 0x50)"

theorem ring_over_read_witness:
  "noPolling_body \<lparr>frame_num = 63, stats = zero_stats\<rparr> (start_ring\<lparr>ring_mem := long_frame\<rparr>) = Inl OutOfBounds"
proof (rule ring_over_read [OF _ _ _ _ _ refl])
  let ?v = "\<lparr>frame_num = 63, stats = zero_stats\<rparr>" and ?w = "start_ring\<lparr>ring_mem := long_frame\<rparr>"
  have len: "slot_len long_frame 63 = 3000" and mac: "slot_mac long_frame 63 = 82"
    by (simp_all add: slot_len_def slot_mac_def long_frame_def FRAME_SIZE_def Let_def le4_def le2_def)
  have p: "packet_ptr long_frame 63 = ring_ptr long_frame 129106"
    by (simp add: packet_ptr_def mac FRAME_SIZE_def)
  have at: "ring_ptr long_frame 129106 ! i = long_frame (129106 + i)" if "i < 1966" for i
    using that by (intro nth_ring_ptr) (simp add: RING_BYTES_def)
  have bytes: "ring_ptr long_frame 129106 ! 14 = 0x45" "ring_ptr long_frame 129106 ! 23 = 6"
    "ring_ptr long_frame 129106 ! 46 = 0x50"
    unfolding at [of 14, simplified] at [of 23, simplified] at [of 46, simplified] by (simp_all add: long_frame_def)
  have l4: "l4 (ring_ptr long_frame 129106) = 34"
    by (simp add: l4_def ip_len_def bytes)
  show "frame_num ?v < NUM_FRAMES" by (simp add: NUM_FRAMES_def)
  show "slot_ready (ring_mem ?w) (frame_num ?v)" by (simp add: slot_ready_def long_frame_def FRAME_SIZE_def)
  show "log_open ?w" "tally_inv ?w" "total_count ?w < INT_MAX"
    using start_ring_fields by (simp_all add: log_open_def tally_inv_def INT_MAX_def)
  show "packet_ptr (ring_mem ?w) (frame_num ?v) ! 23 = 6" by (simp add: p bytes)
  show "l4 (packet_ptr (ring_mem ?w) (frame_num ?v)) + 20 \<le> length (packet_ptr (ring_mem ?w) (frame_num ?v))"
    by (simp add: p l4 RING_BYTES_def)
  show "l4 (packet_ptr (ring_mem ?w) (frame_num ?v)) + 4 * doff (packet_ptr (ring_mem ?w) (frame_num ?v))
      \<le> length (packet_ptr (ring_mem ?w) (frame_num ?v))"
    by (simp add: p l4 doff_def bytes RING_BYTES_def)
  show "length (packet_ptr (ring_mem ?w) (frame_num ?v)) < unat (slot_len (ring_mem ?w) (frame_num ?v))"
    "unat (slot_len (ring_mem ?w) (frame_num ?v)) < 2147483648"
    by (simp_all add: p len RING_BYTES_def)
qed

end
