(* ===== verification/Afp_Socket.thy ===== *)
theory Afp_Socket
  imports Afp_Ring
begin

text \<open>
  The operating system as the program of \<^verbatim>\<open>sniff_afpacket/src\<close> sees it, and the functions of
  \<^verbatim>\<open>source-af-packet.c\<close> that make a packet socket: \<^verbatim>\<open>AFPGetIfnumByDev\<close>, \<^verbatim>\<open>AFPGetDevLinktype\<close>,
  \<^verbatim>\<open>AFPComputeRingParams\<close>, \<^verbatim>\<open>AFPSetupRing\<close> and \<^verbatim>\<open>AFPCreateSocket\<close>.
\<close>

section \<open>The operating system\<close>

text \<open>What the process holds: open sockets, mapped regions, and log files that were opened.\<close>

record cap_world = ring_world +
  socks :: "int list"
  mappings :: nat
  log_files :: nat

record tpacket_req =
  tp_block_size :: nat
  tp_block_nr :: nat
  tp_frame_size :: nat
  tp_frame_nr :: nat

record sockaddr_ll =
  sll_family :: nat
  sll_protocol :: u16
  sll_ifindex :: int

text \<open>
  The results of the system calls, a parameter. A failed call is the text \<^verbatim>\<open>strerror\<close> gives for it.
\<close>

record os =
  progname :: string
  getenv :: "string \<Rightarrow> string option"
  fopen_w :: "string \<Rightarrow> bool"
  socket_call :: "nat \<Rightarrow> nat \<Rightarrow> u16 \<Rightarrow> string + nat"
  rx_ring :: "int \<Rightarrow> tpacket_req \<Rightarrow> string + unit"
  mmap_call :: "int \<Rightarrow> nat \<Rightarrow> string + unit"
  if_index :: "int \<Rightarrow> string \<Rightarrow> string + int"
  hw_family :: "int \<Rightarrow> string \<Rightarrow> string + u16"
  bind_call :: "int \<Rightarrow> sockaddr_ll \<Rightarrow> string + unit"
  clock_start :: timespec
  clock_end :: timespec

definition AF_PACKET :: nat where "AF_PACKET = 17"
definition SOCK_RAW :: nat where "SOCK_RAW = 3"
definition ETH_P_ALL :: u16 where "ETH_P_ALL = 3"
definition ARPHRD_LOOPBACK :: u16 where "ARPHRD_LOOPBACK = 772"
definition ARPHRD_PPP :: u16 where "ARPHRD_PPP = 512"
definition ARPHRD_NONE :: u16 where "ARPHRD_NONE = 0xFFFE"
definition LINKTYPE_ETHERNET :: int where "LINKTYPE_ETHERNET = 1"
definition LINKTYPE_RAW :: int where "LINKTYPE_RAW = 12"

text \<open>\<^verbatim>\<open>htons\<close> on the little-endian target.\<close>

definition htons :: "u16 \<Rightarrow> u16" where
  "htons x = push_bit 8 x OR drop_bit 8 x"

definition EXIT_FAILURE :: nat where "EXIT_FAILURE = 1"

definition errputs :: "string \<Rightarrow> ('w afp_world_scheme, unit) prog" where
  "errputs s = modify (\<lambda>w. w\<lparr>errout := errout w @ s\<rparr>)"

definition perror :: "string \<Rightarrow> string \<Rightarrow> ('w afp_world_scheme, unit) prog" where
  "perror s e = errputs (s @ '': '' @ e @ nl)"

definition errx :: "os \<Rightarrow> nat \<Rightarrow> string \<Rightarrow> ('w afp_world_scheme, 'a status) prog" where
  "errx os code msg = pbind (errputs (progname os @ '': '' @ msg @ nl)) (\<lambda>_. ret (Exits code))"

definition close_sock :: "int \<Rightarrow> ('w cap_world_scheme, unit) prog" where
  "close_sock fd = modify (\<lambda>w. w\<lparr>socks := remove1 fd (socks w)\<rparr>)"

definition open_socket :: "os \<Rightarrow> ('w cap_world_scheme, string + int) prog" where
  "open_socket os =
     (case socket_call os AF_PACKET SOCK_RAW (htons ETH_P_ALL) of
        Inl e \<Rightarrow> ret (Inl e)
      | Inr fd \<Rightarrow> pbind (modify (\<lambda>w. w\<lparr>socks := int fd # socks w\<rparr>)) (\<lambda>_. ret (Inr (int fd))))"

section \<open>The interface\<close>

text \<open>The name is copied into a field of 16 bytes, filled up with zeros.\<close>

definition ifr_name :: "string \<Rightarrow> string" where
  "ifr_name ifname = take 16 (ifname @ replicate 16 CHR 0x00)"

definition AFPGetIfnumByDev :: "os \<Rightarrow> int \<Rightarrow> string \<Rightarrow> int \<Rightarrow> ('w afp_world_scheme, int status) prog" where
  "AFPGetIfnumByDev os fd ifname verbose =
     (case if_index os fd (ifr_name ifname) of
        Inl e \<Rightarrow> errx os EXIT_FAILURE (ifname @ '': failed to find interface: '' @ e)
      | Inr i \<Rightarrow> ret (Value i))"

definition AFPGetDevLinktype :: "os \<Rightarrow> int \<Rightarrow> string \<Rightarrow> ('w afp_world_scheme, int status) prog" where
  "AFPGetDevLinktype os fd ifname =
     (case hw_family os fd (ifr_name ifname) of
        Inl e \<Rightarrow> errx os EXIT_FAILURE (ifname @ '': failed to find interface: '' @ e)
      | Inr family \<Rightarrow>
          ret (Value (if family = ARPHRD_LOOPBACK then LINKTYPE_ETHERNET
                      else if family = ARPHRD_PPP \<or> family = ARPHRD_NONE then LINKTYPE_RAW
                      else uint family)))"

section \<open>The socket with its ring\<close>

datatype result = RESULT_OK | RESULT_FAILURE

record AFPThreadVars =
  socket :: int
  req :: tpacket_req
  iface :: string
  ring_buflen :: u32
  ring_buf :: "nat option"
  datalink :: int

definition ring_params :: tpacket_req where
  "ring_params = \<lparr>tp_block_size = FRAME_SIZE * NUM_FRAMES, tp_block_nr = 1,
                  tp_frame_size = FRAME_SIZE, tp_frame_nr = NUM_FRAMES\<rparr>"

definition AFPComputeRingParams :: "AFPThreadVars \<Rightarrow> int \<Rightarrow> result \<times> AFPThreadVars" where
  "AFPComputeRingParams ptv order = (RESULT_OK, ptv\<lparr>req := ring_params\<rparr>)"

definition AFPSetupRing :: "os \<Rightarrow> AFPThreadVars \<Rightarrow> string \<Rightarrow>
    ('w afp_world_scheme, (result \<times> AFPThreadVars) status) prog" where
  "AFPSetupRing os ptv devname =
     (case AFPComputeRingParams ptv 1 of
        (RESULT_FAILURE, ptv) \<Rightarrow> errx os EXIT_FAILURE (devname @ '': ring parameters are incorrect.'')
      | (RESULT_OK, ptv) \<Rightarrow>
          (case rx_ring os (socket ptv) (req ptv) of
             Inl e \<Rightarrow>
               pbind (puts (devname @ '': failed to activate TPACKET_V2/TPACKET_V3 on packet socket: '' @ e))
                 (\<lambda>_. ret (Value (RESULT_FAILURE, ptv)))
           | Inr _ \<Rightarrow> ret (Value (RESULT_OK, ptv))))"

text \<open>The label \<^verbatim>\<open>socket_err\<close>.\<close>

definition socket_err :: "AFPThreadVars \<Rightarrow> ('w cap_world_scheme, (result \<times> AFPThreadVars) status) prog" where
  "socket_err ptv =
     pbind (close_sock (socket ptv)) (\<lambda>_. ret (Value (RESULT_FAILURE, ptv\<lparr>socket := -1\<rparr>)))"

definition bind_address :: "int \<Rightarrow> sockaddr_ll" where
  "bind_address if_idx = \<lparr>sll_family = AF_PACKET, sll_protocol = htons ETH_P_ALL, sll_ifindex = if_idx\<rparr>"

definition AFPCreateSocket :: "os \<Rightarrow> AFPThreadVars \<Rightarrow> string \<Rightarrow> int \<Rightarrow>
    ('w cap_world_scheme, (result \<times> AFPThreadVars) status) prog" where
  "AFPCreateSocket os ptv devname verbose =
     pbind (open_socket os) (\<lambda>r.
     case r of
       Inl e \<Rightarrow> pbind (perror ''failed to create raw socket'' e) (\<lambda>_. socket_err (ptv\<lparr>socket := -1\<rparr>))
     | Inr fd \<Rightarrow>
         let ptv = ptv\<lparr>socket := fd\<rparr> in
         xbind (AFPGetIfnumByDev os fd devname verbose) (\<lambda>if_idx.
         if if_idx = -1 then socket_err ptv
         else (case bind_call os fd (bind_address if_idx) of
                 Inl _ \<Rightarrow> socket_err ptv
               | Inr _ \<Rightarrow>
                   xbind (AFPSetupRing os ptv devname) (\<lambda>(r, ptv).
                   if r = RESULT_FAILURE then socket_err ptv
                   else xbind (AFPGetDevLinktype os fd devname) (\<lambda>link.
                        ret (Value (RESULT_OK, ptv\<lparr>datalink := link\<rparr>)))))))"

lemma sys_run [simp]:
  "errputs s w = Inr ((), w\<lparr>errout := errout w @ s\<rparr>)"
  "errx os code msg w = Inr (Exits code, w\<lparr>errout := errout w @ progname os @ '': '' @ msg @ nl\<rparr>)"
  by (simp_all add: errputs_def errx_def modify_def)

lemma close_sock_run [simp]: "close_sock fd w = Inr ((), w\<lparr>socks := remove1 fd (socks w)\<rparr>)"
  by (simp add: close_sock_def modify_def)

lemma pbind_sys [simp]:
  "pbind (errputs s) f w = f () (w\<lparr>errout := errout w @ s\<rparr>)"
  "pbind (perror s e) f w = f () (w\<lparr>errout := errout w @ s @ '': '' @ e @ nl\<rparr>)"
  by (simp_all add: errputs_def perror_def)

lemma pbind_close_sock [simp]: "pbind (close_sock fd) f w = f () (w\<lparr>socks := remove1 fd (socks w)\<rparr>)"
  by (simp add: close_sock_def)

lemma xbind_errx [simp]: "xbind (errx os code msg) f = errx os code msg"
  by (rule ext) (simp add: xbind_run)

text \<open>What the functions do, without the text of their messages.\<close>

lemma AFPGetIfnumByDev_run:
  "if_index os fd (ifr_name dev) = Inr i \<Longrightarrow> AFPGetIfnumByDev os fd dev v w = Inr (Value i, w)"
  "if_index os fd (ifr_name dev) = Inl e \<Longrightarrow>
     \<exists>t. AFPGetIfnumByDev os fd dev v w = Inr (Exits 1, w\<lparr>errout := errout w @ t\<rparr>)"
  by (auto simp: AFPGetIfnumByDev_def EXIT_FAILURE_def)

lemma AFPGetDevLinktype_run:
  "\<exists>t link. AFPGetDevLinktype os fd dev w \<in> {Inr (Value link, w), Inr (Exits 1, w\<lparr>errout := errout w @ t\<rparr>)}"
  by (auto simp: AFPGetDevLinktype_def EXIT_FAILURE_def split: sum.split)

lemma AFPSetupRing_run:
  "rx_ring os (socket ptv) ring_params = Inr u \<Longrightarrow>
     AFPSetupRing os ptv dev w = Inr (Value (RESULT_OK, ptv\<lparr>req := ring_params\<rparr>), w)"
  "rx_ring os (socket ptv) ring_params = Inl e \<Longrightarrow>
     \<exists>t. AFPSetupRing os ptv dev w = Inr (Value (RESULT_FAILURE, ptv\<lparr>req := ring_params\<rparr>), grown 0 t w)"
  by (auto simp: AFPSetupRing_def AFPComputeRingParams_def)

lemma socket_err_run [simp]:
  "socket_err ptv w = Inr (Value (RESULT_FAILURE, ptv\<lparr>socket := -1\<rparr>), w\<lparr>socks := remove1 (socket ptv) (socks w)\<rparr>)"
  by (simp add: socket_err_def)

text \<open>The part of \<^verbatim>\<open>AFPCreateSocket\<close> after the socket is bound.\<close>

abbreviation ring_and_link :: "os \<Rightarrow> int \<Rightarrow> AFPThreadVars \<Rightarrow> string \<Rightarrow>
    ('w cap_world_scheme, (result \<times> AFPThreadVars) status) prog" where
  "ring_and_link os fd p dev \<equiv>
     xbind (AFPSetupRing os p dev) (\<lambda>(r, ptv).
     if r = RESULT_FAILURE then socket_err ptv
     else xbind (AFPGetDevLinktype os fd dev) (\<lambda>link.
          ret (Value (RESULT_OK, ptv\<lparr>datalink := link\<rparr>))))"

lemma ring_and_link_run:
  "rx_ring os (socket p) ring_params = Inr () \<and>
     (\<exists>link. ring_and_link os (socket p) p dev w = Inr (Value (RESULT_OK, p\<lparr>req := ring_params, datalink := link\<rparr>), w)) \<or>
   (\<exists>w'. ring_and_link os (socket p) p dev w = Inr (Value (RESULT_FAILURE, p\<lparr>socket := -1, req := ring_params\<rparr>), w') \<and>
     socks w' = remove1 (socket p) (socks w)) \<or>
   (\<exists>w'. ring_and_link os (socket p) p dev w = Inr (Exits 1, w'))"
proof (cases "rx_ring os (socket p) ring_params")
  case (Inl e)
  then obtain t where "AFPSetupRing os p dev w = Inr (Value (RESULT_FAILURE, p\<lparr>req := ring_params\<rparr>), grown 0 t w)"
    using AFPSetupRing_run(2) [of os p e dev w] by blast
  then have "ring_and_link os (socket p) p dev w =
      Inr (Value (RESULT_FAILURE, p\<lparr>socket := -1, req := ring_params\<rparr>),
           (grown 0 t w)\<lparr>socks := remove1 (socket p) (socks w)\<rparr>)"
    by (simp add: xbind_run grown_def)
  moreover have "socks ((grown 0 t w)\<lparr>socks := remove1 (socket p) (socks w)\<rparr>) = remove1 (socket p) (socks w)"
    by simp
  ultimately show ?thesis by blast
next
  case (Inr u)
  then have s: "AFPSetupRing os p dev w = Inr (Value (RESULT_OK, p\<lparr>req := ring_params\<rparr>), w)"
    using AFPSetupRing_run(1) [of os p u dev w] by simp
  obtain t link where "AFPGetDevLinktype os (socket p) dev w = Inr (Value link, w) \<or>
      AFPGetDevLinktype os (socket p) dev w = Inr (Exits 1, w\<lparr>errout := errout w @ t\<rparr>)"
    using AFPGetDevLinktype_run by blast
  then show ?thesis
  proof
    assume "AFPGetDevLinktype os (socket p) dev w = Inr (Value link, w)"
    then have "ring_and_link os (socket p) p dev w = Inr (Value (RESULT_OK, p\<lparr>req := ring_params, datalink := link\<rparr>), w)"
      using s by (simp add: xbind_run)
    then show ?thesis using Inr by (cases u) blast
  next
    assume "AFPGetDevLinktype os (socket p) dev w = Inr (Exits 1, w\<lparr>errout := errout w @ t\<rparr>)"
    then have "\<exists>w'. ring_and_link os (socket p) p dev w = Inr (Exits 1, w')" using s by (simp add: xbind_run)
    then show ?thesis by blast
  qed
qed

lemma AFPCreateSocket_start:
  assumes "socket_call os AF_PACKET SOCK_RAW (htons ETH_P_ALL) = Inr n"
  shows "AFPCreateSocket os ptv dev verbose w =
    (let p = ptv\<lparr>socket := int n\<rparr> in
     xbind (AFPGetIfnumByDev os (int n) dev verbose) (\<lambda>if_idx.
       if if_idx = -1 then socket_err p
       else (case bind_call os (int n) (bind_address if_idx) of
               Inl _ \<Rightarrow> socket_err p | Inr _ \<Rightarrow> ring_and_link os (int n) p dev)) (w\<lparr>socks := int n # socks w\<rparr>))"
  by (simp add: AFPCreateSocket_def open_socket_def assms Let_def pbind_assoc)

section \<open>Properties\<close>

text \<open>
  C19: \<^verbatim>\<open>AFPCreateSocket\<close> keeps its record and the process consistent, whatever the system calls return.
  On success the record holds the one new open socket, bound, with the ring of 64 frames of 2048 bytes.
  On failure it holds -1 and no socket is left open. The only other outcome is that the process ends
  with status 1.
\<close>

theorem AFPCreateSocket_outcomes:
  assumes "\<forall>fd \<in> set (socks w). 0 \<le> fd"
  shows "(\<exists>fd link i w'. AFPCreateSocket os ptv dev verbose w =
            Inr (Value (RESULT_OK, ptv\<lparr>socket := fd, req := ring_params, datalink := link\<rparr>), w') \<and>
          0 \<le> fd \<and> socks w' = fd # socks w \<and> bind_call os fd (bind_address i) = Inr () \<and>
          rx_ring os fd ring_params = Inr ()) \<or>
         (\<exists>ptv' w'. AFPCreateSocket os ptv dev verbose w = Inr (Value (RESULT_FAILURE, ptv'), w') \<and>
          socket ptv' = -1 \<and> socks w' = socks w) \<or>
         (\<exists>w'. AFPCreateSocket os ptv dev verbose w = Inr (Exits 1, w'))"
proof (cases "socket_call os AF_PACKET SOCK_RAW (htons ETH_P_ALL)")
  case (Inl e)
  have "-1 \<notin> set (socks w)" using assms by auto
  then show ?thesis by (simp add: AFPCreateSocket_def open_socket_def Inl remove1_idem)
next
  case (Inr n)
  let ?p = "ptv\<lparr>socket := int n\<rparr>" and ?w = "w\<lparr>socks := int n # socks w\<rparr>"
  note start = AFPCreateSocket_start [OF Inr, of ptv dev verbose w, unfolded Let_def]
  show ?thesis
  proof (cases "if_index os (int n) (ifr_name dev)")
    case (Inl e)
    from AFPGetIfnumByDev_run(2) [OF this, of verbose ?w]
    have "\<exists>w'. AFPCreateSocket os ptv dev verbose w = Inr (Exits 1, w')" unfolding start by (auto simp: xbind_run)
    then show ?thesis by blast
  next
    case i: (Inr i)
    note start = start [unfolded xbind_run(1) [where m = "AFPGetIfnumByDev os (int n) dev verbose" and w = ?w
          and w' = ?w, OF AFPGetIfnumByDev_run(1) [OF this, of verbose ?w]]]
    show ?thesis
    proof (cases "i = -1 \<or> (\<exists>e. bind_call os (int n) (bind_address i) = Inl e)")
      case True
      then have "AFPCreateSocket os ptv dev verbose w =
          Inr (Value (RESULT_FAILURE, ptv\<lparr>socket := -1\<rparr>), ?w\<lparr>socks := socks w\<rparr>)"
        unfolding start by auto
      moreover have "socket (ptv\<lparr>socket := -1\<rparr>) = -1" "socks (?w\<lparr>socks := socks w\<rparr>) = socks w" by simp_all
      ultimately show ?thesis by blast
    next
      case False
      then have b: "bind_call os (int n) (bind_address i) = Inr ()"
        by (cases "bind_call os (int n) (bind_address i)") simp_all
      then have eq: "AFPCreateSocket os ptv dev verbose w = ring_and_link os (int n) ?p dev ?w"
        unfolding start using False by simp
      have fd: "socket ?p = int n" "socks ?w = int n # socks w" "0 \<le> int n" by simp_all
      from ring_and_link_run [of os ?p dev ?w, unfolded fd(1), folded eq] show ?thesis
        by (elim disjE exE conjE; use b fd in \<open>simp; blast\<close>)
    qed
  qed
qed

text \<open>A system for the examples: every call succeeds.\<close>

definition calm_os :: os where
  "calm_os = \<lparr>progname = ''sniff'', getenv = (\<lambda>_. Some ''eth0''), fopen_w = (\<lambda>_. True),
     socket_call = (\<lambda>_ _ _. Inr 3), rx_ring = (\<lambda>_ _. Inr ()), mmap_call = (\<lambda>_ _. Inr ()),
     if_index = (\<lambda>_ _. Inr 2), hw_family = (\<lambda>_ _. Inr 1), bind_call = (\<lambda>_ _. Inr ()),
     clock_start = \<lparr>tv_sec = 0, tv_nsec = 0\<rparr>, clock_end = \<lparr>tv_sec = 1, tv_nsec = 0\<rparr>\<rparr>"

definition start_cap :: cap_world where
  "start_cap = ring_world.extend start_ring \<lparr>socks = [], mappings = 0, log_files = 0\<rparr>"

definition no_vars :: AFPThreadVars where
  "no_vars = \<lparr>socket = -1, req = \<lparr>tp_block_size = 0, tp_block_nr = 0, tp_frame_size = 0, tp_frame_nr = 0\<rparr>,
     iface = [], ring_buflen = 0, ring_buf = None, datalink = 0\<rparr>"

lemma socks_start_cap [simp]: "socks start_cap = []"
  by (simp add: start_cap_def start_ring_def start_afp_def ring_world.defs afp_world.defs)

theorem AFPCreateSocket_outcomes_witness:
  "\<exists>p w'. AFPCreateSocket calm_os no_vars ''eth0'' 0 start_cap = Inr (Value (RESULT_OK, p), w') \<and>
     0 \<le> socket p \<and> socks w' = [socket p]"
proof -
  have "AFPCreateSocket calm_os no_vars ''eth0'' 0 start_cap =
      Inr (Value (RESULT_OK, no_vars\<lparr>socket := 3, req := ring_params, datalink := 1\<rparr>), start_cap\<lparr>socks := [3]\<rparr>)"
    by (simp add: AFPCreateSocket_def open_socket_def calm_os_def Let_def pbind_assoc AFPGetIfnumByDev_def
        AFPSetupRing_def AFPComputeRingParams_def AFPGetDevLinktype_def ARPHRD_LOOPBACK_def ARPHRD_PPP_def
        ARPHRD_NONE_def)
  with AFPCreateSocket_outcomes [of start_cap calm_os no_vars "''eth0''" 0] show ?thesis by auto
qed

end
