(* ===== verification/Afp_Capture.thy ===== *)
theory Afp_Capture
  imports Afp_Socket
begin

text \<open>
  The two capture functions of \<^verbatim>\<open>sniff_afpacket/src/source-af-packet.c\<close> that read the mapped ring,
  from the log file and the socket to the statistics and the release of what they hold. They differ in
  the name of the log and in the loop.
\<close>

definition DEVICE_INTERFACE :: string where "DEVICE_INTERFACE = ''DEVICE_INTERFACE''"

text \<open>
  \<^verbatim>\<open>fopen\<close> with mode \<^verbatim>\<open>w\<close> empties the file. When it fails the code only prints a message.
\<close>

definition open_log :: "os \<Rightarrow> string \<Rightarrow> string \<Rightarrow> ('w cap_world_scheme, unit) prog" where
  "open_log os name label =
     (if fopen_w os name
      then modify (\<lambda>w. w\<lparr>logfile := Some [], log_files := log_files w + 1\<rparr>)
      else pbind (modify (\<lambda>w. w\<lparr>logfile := None\<rparr>)) (\<lambda>_. puts (''Unable to create '' @ label @ '' file.'')))"

definition munmap :: "('w cap_world_scheme, unit) prog" where
  "munmap = modify (\<lambda>w. w\<lparr>mappings := mappings w - 1\<rparr>)"

text \<open>From the log file to the bound socket.\<close>

definition ring_setup :: "os \<Rightarrow> string \<Rightarrow> string \<Rightarrow> ('w cap_world_scheme, int status) prog" where
  "ring_setup os name label =
     pbind (open_log os name label) (\<lambda>_.
     pbind (puts (''Starting...'' @ nl)) (\<lambda>_.
     case getenv os DEVICE_INTERFACE of
       None \<Rightarrow> errx os 1 ''ERROR: failed to load environment device interface''
     | Some dev_interface \<Rightarrow>
         pbind (open_socket os) (\<lambda>r.
         case r of
           Inl e \<Rightarrow> pbind (perror ''Socket Error'' e) (\<lambda>_. die EXIT_FAILURE)
         | Inr sockfd \<Rightarrow>
             let req = ring_params in
             (case rx_ring os sockfd req of
                Inl e \<Rightarrow> pbind (perror ''setsockopt'' e) (\<lambda>_. pbind (close_sock sockfd) (\<lambda>_. die EXIT_FAILURE))
              | Inr _ \<Rightarrow>
                  (case mmap_call os sockfd (tp_block_size req * tp_block_nr req) of
                     Inl e \<Rightarrow> pbind (perror ''mmap'' e) (\<lambda>_. pbind (close_sock sockfd) (\<lambda>_. die EXIT_FAILURE))
                   | Inr _ \<Rightarrow>
                       pbind (modify (\<lambda>w. w\<lparr>mappings := mappings w + 1\<rparr>)) (\<lambda>_.
                       xbind (AFPGetIfnumByDev os sockfd dev_interface 0) (\<lambda>if_idx.
                       case bind_call os sockfd (bind_address if_idx) of
                         Inl e \<Rightarrow>
                           pbind (perror ''bind'' e) (\<lambda>_.
                           pbind munmap (\<lambda>_.
                           pbind (close_sock sockfd) (\<lambda>_. die EXIT_FAILURE)))
                       | Inr _ \<Rightarrow>
                           pbind (puts (''Capturing on interface '' @ dev_interface @ ''...'' @ nl)) (\<lambda>_.
                           ret (Value sockfd)))))))))"

text \<open>After the loop.\<close>

definition ring_finish :: "os \<Rightarrow> 'd double_ops \<Rightarrow> int \<Rightarrow> ring_vars ending \<Rightarrow> ('w cap_world_scheme, int status) prog" where
  "ring_finish os d sockfd r =
     (case r of
        Done v \<Rightarrow>
          pbind (print_stats d (clock_end os) (stats v)) (\<lambda>_.
          pbind munmap (\<lambda>_.
          pbind (close_sock sockfd) (\<lambda>_.
          ret (Value 0))))
      | Returned n \<Rightarrow> ret (Value n)
      | Still_running \<Rightarrow> ret Running)"

definition first_frame :: "os \<Rightarrow> ring_vars" where
  "first_frame os = \<lparr>frame_num = 0, stats = init_stats (clock_start os) zero_stats\<rparr>"

definition AFPPacketProcessUsingRingBufferNoPolling ::
    "os \<Rightarrow> 'd double_ops \<Rightarrow> ((nat \<Rightarrow> byte) \<Rightarrow> nat \<Rightarrow> byte) env list \<Rightarrow> ('w cap_world_scheme, int status) prog" where
  "AFPPacketProcessUsingRingBufferNoPolling os d es =
     xbind (ring_setup os ''log_ring_buffer_.txt'' ''log_ring_buffer.txt'') (\<lambda>sockfd.
     pbind (noPolling_loop es (first_frame os)) (ring_finish os d sockfd))"

definition AFPPacketProcessUsingRingBufferPolling ::
    "os \<Rightarrow> 'd double_ops \<Rightarrow> poll_event env list \<Rightarrow> ('w cap_world_scheme, int status) prog" where
  "AFPPacketProcessUsingRingBufferPolling os d es =
     xbind (ring_setup os ''log_ring_buffer_poll.txt'' ''log_ring_buffer_poll.txt'') (\<lambda>sockfd.
     pbind (polling_loop es (first_frame os)) (ring_finish os d sockfd))"

lemma RING_BYTES_mapped: "tp_block_size ring_params * tp_block_nr ring_params = RING_BYTES"
  by (simp add: ring_params_def RING_BYTES_eq)

section \<open>The setup\<close>

text \<open>Every step of the setup succeeds, for this device and this socket.\<close>

definition ring_ready :: "os \<Rightarrow> string \<Rightarrow> nat \<Rightarrow> bool" where
  "ring_ready os dev fd \<longleftrightarrow> getenv os DEVICE_INTERFACE = Some dev \<and>
     socket_call os AF_PACKET SOCK_RAW (htons ETH_P_ALL) = Inr fd \<and>
     rx_ring os (int fd) ring_params = Inr () \<and> mmap_call os (int fd) RING_BYTES = Inr () \<and>
     (\<exists>i. if_index os (int fd) (ifr_name dev) = Inr i \<and> bind_call os (int fd) (bind_address i) = Inr ())"

text \<open>The process once the log has been opened, or not.\<close>

definition log_opened :: "os \<Rightarrow> string \<Rightarrow> string \<Rightarrow> 'w cap_world_scheme \<Rightarrow> 'w cap_world_scheme" where
  "log_opened os name label w =
     (if fopen_w os name then grown 0 (''Starting...'' @ nl) (w\<lparr>logfile := Some [], log_files := log_files w + 1\<rparr>)
      else grown 0 (''Unable to create '' @ label @ '' file.'' @ ''Starting...'' @ nl) (w\<lparr>logfile := None\<rparr>))"

lemma open_log_run: "pbind (open_log os name label) (\<lambda>_. pbind (puts (''Starting...'' @ nl)) f) w
    = f () (log_opened os name label w)"
  by (simp add: open_log_def log_opened_def pbind_assoc)

lemma log_opened_fields [simp]:
  "ring_mem (log_opened os name label w) = ring_mem w" "socks (log_opened os name label w) = socks w"
  "mappings (log_opened os name label w) = mappings w" "errout (log_opened os name label w) = errout w"
  "running (log_opened os name label w) = running w" "total_count (log_opened os name label w) = total_count w"
  "tcp_count (log_opened os name label w) = tcp_count w" "udp_count (log_opened os name label w) = udp_count w"
  "icmp_count (log_opened os name label w) = icmp_count w" "igmp_count (log_opened os name label w) = igmp_count w"
  "others_count (log_opened os name label w) = others_count w"
  "log_open (log_opened os name label w) = fopen_w os name"
  by (simp_all add: log_opened_def grown_def log_open_def)

text \<open>The rest of the setup, from the environment variable on, and what it does.\<close>

definition opened :: "string \<Rightarrow> nat \<Rightarrow> 'w cap_world_scheme \<Rightarrow> 'w cap_world_scheme" where
  "opened dev fd w = (grown 0 (''Capturing on interface '' @ dev @ ''...'' @ nl) w)
     \<lparr>socks := int fd # socks w, mappings := mappings w + 1\<rparr>"

lemma ring_setup_ok:
  assumes "ring_ready os dev fd"
  shows "ring_setup os name label w = Inr (Value (int fd), opened dev fd (log_opened os name label w))"
proof -
  obtain i where i: "if_index os (int fd) (ifr_name dev) = Inr i" "bind_call os (int fd) (bind_address i) = Inr ()"
    using assms by (auto simp: ring_ready_def)
  show ?thesis
    using assms i(2) unfolding ring_setup_def open_log_run
    by (simp add: ring_ready_def open_socket_def pbind_assoc AFPGetIfnumByDev_def i(1) RING_BYTES_mapped
        opened_def grown_def)
qed

text \<open>
  The socket that is lost when the interface of \<^verbatim>\<open>DEVICE_INTERFACE\<close> is not found: the setup has opened it
  and mapped its ring by then, and the process ends inside \<^verbatim>\<open>AFPGetIfnumByDev\<close>.
\<close>

definition stranded :: "os \<Rightarrow> nat option" where
  "stranded os =
     (case getenv os DEVICE_INTERFACE of
        None \<Rightarrow> None
      | Some dev \<Rightarrow>
          (case socket_call os AF_PACKET SOCK_RAW (htons ETH_P_ALL) of
             Inl _ \<Rightarrow> None
           | Inr fd \<Rightarrow>
               (case (rx_ring os (int fd) ring_params, mmap_call os (int fd) RING_BYTES,
                      if_index os (int fd) (ifr_name dev)) of
                  (Inr _, Inr _, Inl _) \<Rightarrow> Some fd
                | _ \<Rightarrow> None)))"

text \<open>What a failed setup leaves: a message, and nothing held but what is stranded.\<close>

definition setup_failed :: "os \<Rightarrow> 'w cap_world_scheme \<Rightarrow> 'w cap_world_scheme \<Rightarrow> bool" where
  "setup_failed os w w' \<longleftrightarrow> (\<exists>t. t \<noteq> [] \<and> w' =
     (case stranded os of
        None \<Rightarrow> w\<lparr>errout := errout w @ t\<rparr>
      | Some fd \<Rightarrow> w\<lparr>errout := errout w @ t, socks := int fd # socks w, mappings := mappings w + 1\<rparr>))"

lemma setup_failed_message:
  "stranded os = None \<Longrightarrow> t \<noteq> [] \<Longrightarrow> setup_failed os w (w\<lparr>errout := errout w @ t\<rparr>)"
  unfolding setup_failed_def by auto

lemma setup_failed_restored:
  assumes "stranded os = None" and "t \<noteq> []"
  shows "setup_failed os w (w\<lparr>socks := socks w, errout := errout w @ t\<rparr>)"
    and "setup_failed os w (w\<lparr>socks := socks w, mappings := mappings w, errout := errout w @ t\<rparr>)"
proof -
  have "w\<lparr>socks := socks w, errout := errout w @ t\<rparr> = w\<lparr>errout := errout w @ t\<rparr>"
    "w\<lparr>socks := socks w, mappings := mappings w, errout := errout w @ t\<rparr> = w\<lparr>errout := errout w @ t\<rparr>"
    by (cases w; simp)+
  then show "setup_failed os w (w\<lparr>socks := socks w, errout := errout w @ t\<rparr>)"
    "setup_failed os w (w\<lparr>socks := socks w, mappings := mappings w, errout := errout w @ t\<rparr>)"
    using setup_failed_message [OF assms] by simp_all
qed

lemma setup_failed_interface:
  assumes "stranded os = Some fd" and "t \<noteq> []"
  shows "setup_failed os w (w\<lparr>socks := int fd # socks w, mappings := Suc (mappings w), errout := errout w @ t\<rparr>)"
proof -
  have "w\<lparr>socks := int fd # socks w, mappings := Suc (mappings w), errout := errout w @ t\<rparr>
      = w\<lparr>errout := errout w @ t, socks := int fd # socks w, mappings := mappings w + 1\<rparr>" by simp
  then show ?thesis using assms unfolding setup_failed_def by (intro exI [of _ t]) (simp only: option.case simp_thms)
qed

lemma ring_setup_fails:
  assumes "\<nexists>dev fd. ring_ready os dev fd"
  shows "\<exists>w'. ring_setup os name label w = Inr (Exits 1, w') \<and> setup_failed os (log_opened os name label w) w'"
proof -
  let ?w = "log_opened os name label w"
  note failed = setup_failed_message setup_failed_restored
  note defs = open_socket_def pbind_assoc EXIT_FAILURE_def die_def RING_BYTES_mapped stranded_def failed
  show ?thesis
  proof (cases "getenv os DEVICE_INTERFACE")
    case None
    show ?thesis unfolding ring_setup_def open_log_run using None by (simp add: defs del: log_opened_fields)
  next
    case dev: (Some dev)
    show ?thesis
    proof (cases "socket_call os AF_PACKET SOCK_RAW (htons ETH_P_ALL)")
      case (Inl e)
      then show ?thesis unfolding ring_setup_def open_log_run using dev by (simp add: defs del: log_opened_fields)
    next
      case fd: (Inr fd)
      show ?thesis
      proof (cases "rx_ring os (int fd) ring_params")
        case (Inl e)
        then show ?thesis unfolding ring_setup_def open_log_run using dev fd by (simp add: defs del: log_opened_fields)
      next
        case rx: (Inr u)
        show ?thesis
        proof (cases "mmap_call os (int fd) RING_BYTES")
          case (Inl e)
          then show ?thesis unfolding ring_setup_def open_log_run using dev fd rx by (simp add: defs del: log_opened_fields)
        next
          case mm: (Inr u')
          show ?thesis
          proof (cases "if_index os (int fd) (ifr_name dev)")
            case (Inl e)
            then show ?thesis unfolding ring_setup_def open_log_run using dev fd rx mm
              by (simp add: AFPGetIfnumByDev_def defs setup_failed_interface del: log_opened_fields)
          next
            case i: (Inr i)
            have "bind_call os (int fd) (bind_address i) \<noteq> Inr ()"
              using assms dev fd rx mm i by (auto simp: ring_ready_def)
            then obtain e where "bind_call os (int fd) (bind_address i) = Inl e"
              by (cases "bind_call os (int fd) (bind_address i)") auto
            then show ?thesis unfolding ring_setup_def open_log_run using dev fd rx mm i
              by (simp add: AFPGetIfnumByDev_def munmap_def defs del: log_opened_fields)
          qed
        qed
      qed
    qed
  qed
qed

section \<open>Properties\<close>

text \<open>
  C20: when a step of the setup fails, either capture function ends the process with status 1 before a
  single frame is looked at: the region and the counters are untouched, there is a message, and
  socket and mapping have been released in the reverse order. Only when the setup has come as far as the
  index of the interface and that is not found are the socket and its mapping left as they are.
\<close>

theorem ring_setup_errors:
  assumes "\<nexists>dev fd. ring_ready os dev fd"
    and "m = AFPPacketProcessUsingRingBufferNoPolling os d es \<or>
         m = AFPPacketProcessUsingRingBufferPolling os d es'"
  shows "\<exists>w'. m w = Inr (Exits 1, w') \<and> ring_mem w' = ring_mem w \<and> counters w' = counters w \<and>
    (\<exists>t. t \<noteq> [] \<and> errout w' = errout w @ t) \<and>
    (case stranded os of
       None \<Rightarrow> socks w' = socks w \<and> mappings w' = mappings w
     | Some fd \<Rightarrow> socks w' = int fd # socks w \<and> mappings w' = mappings w + 1)"
proof -
  have kept: "ring_mem w' = ring_mem w \<and> counters w' = counters w \<and> (\<exists>t. t \<noteq> [] \<and> errout w' = errout w @ t) \<and>
      (case stranded os of
         None \<Rightarrow> socks w' = socks w \<and> mappings w' = mappings w
       | Some fd \<Rightarrow> socks w' = int fd # socks w \<and> mappings w' = mappings w + 1)"
    if "setup_failed os (log_opened os name label w) w'" for name label w'
    using that by (cases "stranded os") (auto simp: setup_failed_def counters_def)
  from assms(2) obtain name label f where m: "m = xbind (ring_setup os name label) f"
  proof
    assume "m = AFPPacketProcessUsingRingBufferNoPolling os d es"
    from that [OF this [unfolded AFPPacketProcessUsingRingBufferNoPolling_def]] show thesis .
  next
    assume "m = AFPPacketProcessUsingRingBufferPolling os d es'"
    from that [OF this [unfolded AFPPacketProcessUsingRingBufferPolling_def]] show thesis .
  qed
  obtain w' where w': "ring_setup os name label w = Inr (Exits 1, w')" "setup_failed os (log_opened os name label w) w'"
    using ring_setup_fails [OF assms(1)] by blast
  have "m w = Inr (Exits 1, w')" unfolding m by (rule xbind_run(2)) (rule w'(1))
  with kept [OF w'(2)] show ?thesis by blast
qed

text \<open>What a session prints, for the frames it has taken.\<close>

definition session_text :: "'d double_ops \<Rightarrow> os \<Rightarrow> string \<Rightarrow> (u32 \<times> byte list) list \<Rightarrow> string" where
  "session_text d os dev frames =
     ''Starting...'' @ nl @ ''Capturing on interface '' @ dev @ ''...'' @ nl @
     ''Received terminal signal. Stop the program'' @ nl @
     stats_text d (clock_end os)
       (zero_stats\<lparr>start_time := clock_start os, packets_processed := of_nat (length frames),
                  bytes_processed := (\<Sum>f\<leftarrow>frames. ucast (fst f))\<rparr>)"

lemma same_process_cap:
  assumes "same_process w w'"
  shows "socks w' = socks w \<and> mappings w' = mappings w \<and> log_files w' = log_files w \<and> out w' = out w"
  using assms by (cases w; cases w') (simp add: same_process_def)

lemma opened_fields:
  "log_open (opened dev fd w) = log_open w" "tally_inv (opened dev fd w) = tally_inv w"
  "ring_mem (opened dev fd w) = ring_mem w" "total_count (opened dev fd w) = total_count w"
  "running (opened dev fd w) = running w" "tally_inv (log_opened os name label w) = tally_inv w"
  by (simp_all add: opened_def grown_def log_open_def tally_inv_def)

lemma ring_session_run:
  assumes loop: "\<exists>v' w'. loop (opened dev fd (log_opened os name label w)) = Inr (Done v', interrupted w') \<and>
      drained n (first_frame os) (opened dev fd (log_opened os name label w)) v' w'"
    and ready: "ring_ready os dev fd" and log: "fopen_w os name" and n: "n \<le> length (ring_queue (ring_mem w) 0)"
  shows "\<exists>w'. xbind (ring_setup os name label) (\<lambda>sockfd. pbind loop (ring_finish os d sockfd)) w = Inr (Value 0, w') \<and>
    socks w' = socks w \<and> mappings w' = mappings w \<and>
    log_files w' = log_files w + 1 \<and> tally_inv w' \<and> total_count w' = total_count w + int n \<and>
    ring_queue (ring_mem w') (n mod NUM_FRAMES) = drop n (ring_queue (ring_mem w) 0) \<and>
    out w' = out w @ session_text d os dev (take n (ring_queue (ring_mem w) 0))"
proof -
  let ?w = "opened dev fd (log_opened os name label w)"
  have ring: "ring_mem ?w = ring_mem w" "total_count ?w = total_count w" "socks ?w = int fd # socks w"
    "mappings ?w = mappings w + 1" by (simp_all add: opened_def grown_def)
  have log_files: "log_files ?w = log_files w + 1"
    and out: "out ?w = out w @ ''Starting...'' @ nl @ ''Capturing on interface '' @ dev @ ''...'' @ nl"
    using log by (simp_all add: opened_def log_opened_def grown_def)
  obtain v1 w1 where l: "loop ?w = Inr (Done v1, interrupted w1)" and d: "drained n (first_frame os) ?w v1 w1"
    using loop by blast
  have same: "socks w1 = int fd # socks w" "mappings w1 = mappings w + 1" "log_files w1 = log_files w + 1"
    "out w1 = out w @ ''Starting...'' @ nl @ ''Capturing on interface '' @ dev @ ''...'' @ nl"
    using same_process_cap [of ?w w1] d ring log_files out by (simp_all add: drained_def)
  define st where "st = stats v1"
  define w2 where "w2 = grown 0 (stats_text d (clock_end os) st) (interrupted w1)"
  define w3 where "w3 = w2\<lparr>mappings := mappings w2 - 1, socks := remove1 (int fd) (socks w2)\<rparr>"
  have run: "ring_finish os d (int fd) (Done v1) (interrupted w1) = Inr (Value 0, w3)"
    by (simp add: ring_finish_def pbind_step [OF print_stats_run] munmap_def w3_def w2_def st_def)
  have "xbind (ring_setup os name label) (\<lambda>sockfd. pbind loop (ring_finish os d sockfd)) w = Inr (Value 0, w3)"
    using l run by (simp add: xbind_run(1) [where m = "ring_setup os name label", OF ring_setup_ok [OF ready]] pbind_step)
  moreover have "socks w3 = socks w \<and> mappings w3 = mappings w \<and> log_files w3 = log_files w + 1"
    using same by (simp add: w3_def w2_def interrupted_def grown_def)
  moreover have "tally_inv w3 \<and> total_count w3 = total_count w + int n \<and>
      ring_queue (ring_mem w3) (n mod NUM_FRAMES) = drop n (ring_queue (ring_mem w) 0)"
    using d ring by (auto simp: drained_def w3_def w2_def interrupted_def grown_def tally_inv_def first_frame_def)
  moreover have "st = zero_stats\<lparr>start_time := clock_start os, packets_processed := of_nat n,
      bytes_processed := (\<Sum>f\<leftarrow>take n (ring_queue (ring_mem w) 0). ucast (fst f))\<rparr>"
    using d ring n by (simp add: st_def drained_def fold_count_packet first_frame_def init_stats_def zero_stats_def)
  then have "out w3 = out w @ session_text d os dev (take n (ring_queue (ring_mem w) 0))"
    using same(4) n by (simp add: w3_def w2_def session_text_def interrupted_def min_def)
  ultimately show ?thesis by blast
qed

text \<open>The start of a loop, from a process that is ready for it.\<close>

lemma session_start:
  assumes "ring_ready os dev fd" and "fopen_w os name" and "queue_fits (ring_mem w) 0"
    and "tally_inv w" and "total_count w + int n \<le> INT_MAX" and "n \<le> length (ring_queue (ring_mem w) 0)"
    and "running w"
  shows "frame_num (first_frame os) < NUM_FRAMES"
    "queue_fits (ring_mem (opened dev fd (log_opened os name label w))) (frame_num (first_frame os))"
    "log_open (opened dev fd (log_opened os name label w))"
    "tally_inv (opened dev fd (log_opened os name label w))"
    "total_count (opened dev fd (log_opened os name label w)) + int n \<le> INT_MAX"
    "n \<le> length (ring_queue (ring_mem (opened dev fd (log_opened os name label w))) (frame_num (first_frame os)))"
    "running (opened dev fd (log_opened os name label w))"
  using assms(2-7) by (simp_all add: first_frame_def NUM_FRAMES_def opened_fields)

lemma polling_session:
  assumes "ring_ready os dev fd" and "fopen_w os ''log_ring_buffer_poll.txt''" and "queue_fits (ring_mem w) 0"
    and "tally_inv w" and "total_count w + int n \<le> INT_MAX" and "n \<le> length (ring_queue (ring_mem w) 0)"
    and "running w"
  shows "\<exists>w'. AFPPacketProcessUsingRingBufferPolling os d
      (replicate n (Input \<lparr>kernel_did = id, poll_result = 1, poll_error = []\<rparr>) @ [Signal SIGTERM]) w = Inr (Value 0, w') \<and>
    socks w' = socks w \<and> mappings w' = mappings w \<and>
    log_files w' = log_files w + 1 \<and> tally_inv w' \<and> total_count w' = total_count w + int n \<and>
    ring_queue (ring_mem w') (n mod NUM_FRAMES) = drop n (ring_queue (ring_mem w) 0) \<and>
    out w' = out w @ session_text d os dev (take n (ring_queue (ring_mem w) 0))"
  unfolding AFPPacketProcessUsingRingBufferPolling_def
  by (rule ring_session_run [OF _ assms(1,2,6)]) (rule polling_drained [OF session_start [OF assms]])

text \<open>
  C22: a whole session of the function without polling. With a system on which every call succeeds and a
  region whose \<open>n\<close> first frames are ready and fit, \<open>n\<close> rounds of the loop and a termination signal make the
  function return 0: socket and mapping are released, the log file is still open, every one of the
  frames has been counted, the rest of the queue is untouched, and the output is the banner, the
  message of the signal handler, and the statistics of exactly these frames.
\<close>

theorem noPolling_session:
  assumes "ring_ready os dev fd" and "fopen_w os ''log_ring_buffer_.txt''" and "queue_fits (ring_mem w) 0"
    and "tally_inv w" and "total_count w + int n \<le> INT_MAX" and "n \<le> length (ring_queue (ring_mem w) 0)"
    and "running w"
  shows "\<exists>w'. AFPPacketProcessUsingRingBufferNoPolling os d (replicate n (Input id) @ [Signal SIGTERM]) w = Inr (Value 0, w') \<and>
    socks w' = socks w \<and> mappings w' = mappings w \<and>
    log_files w' = log_files w + 1 \<and> tally_inv w' \<and> total_count w' = total_count w + int n \<and>
    ring_queue (ring_mem w') (n mod NUM_FRAMES) = drop n (ring_queue (ring_mem w) 0) \<and>
    out w' = out w @ session_text d os dev (take n (ring_queue (ring_mem w) 0))"
  unfolding AFPPacketProcessUsingRingBufferNoPolling_def
  by (rule ring_session_run [OF _ assms(1,2,6)]) (rule noPolling_drained [OF session_start [OF assms]])

text \<open>Examples: a system without the environment variable, and a session with one frame.\<close>

definition no_doubles :: "int double_ops" where
  "no_doubles = \<lparr>d_of_int = (\<lambda>i. i), d_add = (+), d_mul = (*), d_div = (div), d_show = (\<lambda>_. show_int)\<rparr>"

theorem ring_setup_errors_witness:
  "(\<exists>w'. AFPPacketProcessUsingRingBufferPolling (calm_os\<lparr>getenv := \<lambda>_. None\<rparr>) no_doubles [] start_cap = Inr (Exits 1, w') \<and>
     counters w' = counters start_cap \<and> socks w' = [] \<and> mappings w' = mappings start_cap) \<and>
   (\<exists>w'. AFPPacketProcessUsingRingBufferPolling (calm_os\<lparr>if_index := \<lambda>_ _. Inl ''No such device''\<rparr>) no_doubles [] start_cap
       = Inr (Exits 1, w') \<and> socks w' = [3] \<and> mappings w' = mappings start_cap + 1)"
proof (intro conjI)
  let ?os = "calm_os\<lparr>getenv := \<lambda>_. None\<rparr>" and ?no = "calm_os\<lparr>if_index := \<lambda>_ _. Inl ''No such device''\<rparr>"
  have start: "socks start_cap = []" by (simp add: start_cap_def ring_world.defs)
  have "\<nexists>dev fd. ring_ready ?os dev fd" "stranded ?os = None"
    by (simp_all add: ring_ready_def stranded_def)
  from ring_setup_errors [OF this(1) disjI2 [OF refl], of no_doubles "[]" start_cap] this(2)
  show "\<exists>w'. AFPPacketProcessUsingRingBufferPolling ?os no_doubles [] start_cap = Inr (Exits 1, w') \<and>
     counters w' = counters start_cap \<and> socks w' = [] \<and> mappings w' = mappings start_cap"
    by (auto simp: start)
  have "\<nexists>dev fd. ring_ready ?no dev fd" "stranded ?no = Some 3"
    by (simp_all add: ring_ready_def stranded_def calm_os_def)
  from ring_setup_errors [OF this(1) disjI2 [OF refl], of no_doubles "[]" start_cap] this(2)
  show "\<exists>w'. AFPPacketProcessUsingRingBufferPolling ?no no_doubles [] start_cap = Inr (Exits 1, w') \<and>
     socks w' = [3] \<and> mappings w' = mappings start_cap + 1"
    by (auto simp: start)
qed

lemma start_cap_fields:
  "tally_inv (start_cap\<lparr>ring_mem := mem\<rparr>)" "total_count start_cap = 0" "running start_cap" "ring_mem start_cap = (\<lambda>_. 0)"
  "mappings start_cap = 0" "log_files start_cap = 0"
  by (simp_all add: start_cap_def start_ring_def start_afp_def ring_world.defs afp_world.defs tally_inv_def)

lemma calm_os_ready: "ring_ready calm_os ''eth0'' 3"
  by (simp add: ring_ready_def calm_os_def)

theorem noPolling_session_witness:
  "\<exists>w'. AFPPacketProcessUsingRingBufferNoPolling calm_os no_doubles [Input id, Signal SIGTERM]
      (start_cap\<lparr>ring_mem := one_frame\<rparr>) = Inr (Value 0, w') \<and>
     socks w' = [] \<and> mappings w' = 0 \<and> log_files w' = 1 \<and> total_count w' = 1"
proof -
  let ?w = "start_cap\<lparr>ring_mem := one_frame\<rparr>"
  have "fopen_w calm_os ''log_ring_buffer_.txt''" by (simp add: calm_os_def)
  moreover have "queue_fits (ring_mem ?w) 0" "1 \<le> length (ring_queue (ring_mem ?w) 0)"
    by (simp_all add: one_frame_queue)
  moreover have "total_count ?w + int 1 \<le> INT_MAX" "running ?w" "tally_inv ?w"
    by (simp_all add: start_cap_fields INT_MAX_def)
  ultimately obtain w' where
    "AFPPacketProcessUsingRingBufferNoPolling calm_os no_doubles (replicate 1 (Input id) @ [Signal SIGTERM]) ?w
      = Inr (Value 0, w')"
    "socks w' = socks ?w" "mappings w' = mappings ?w" "log_files w' = log_files ?w + 1"
    "total_count w' = total_count ?w + int 1"
    using noPolling_session [OF calm_os_ready, of ?w 1 no_doubles] by blast
  then show ?thesis by (intro exI [of _ w']) (simp add: start_cap_fields)
qed

end
