(* ===== verification/Afp_Poll.thy ===== *)
theory Afp_Poll
  imports Afp_Capture
begin

text \<open>
  \<^verbatim>\<open>AFPPacketProcessPoll\<close> of \<^verbatim>\<open>sniff_afpacket/src/source-af-packet.c\<close>: the capture that waits with
  \<^verbatim>\<open>poll\<close> and copies each packet with \<^verbatim>\<open>recvfrom\<close> into one buffer of 65536 bytes. The buffer is never
  cleared: what a short packet does not overwrite is left from the packets before it.
\<close>

definition BUFFER_SIZE :: nat where "BUFFER_SIZE = 65536"

text \<open>The buffer is null when \<^verbatim>\<open>malloc\<close> has failed, which the code does not test.\<close>

record poll_vars =
  buffer :: "byte list option"
  poll_stats :: Stats

text \<open>
  One round: the result of \<^verbatim>\<open>poll\<close>, the field \<^verbatim>\<open>revents\<close> it leaves, and the packet \<^verbatim>\<open>recvfrom\<close> would
  deliver, or its failure.
\<close>

record recv_event =
  poll_ret :: int
  revents :: u16
  received :: "byte list option"

text \<open>
  \<^verbatim>\<open>recvfrom(sockfd, buffer, 65536, ...)\<close>: a longer packet is cut off, and a null buffer is an error
  unless there is nothing to copy.
\<close>

definition recvfrom :: "byte list option \<Rightarrow> byte list option \<Rightarrow> int \<times> byte list option" where
  "recvfrom buf packet =
     (case packet of
        None \<Rightarrow> (-1, buf)
      | Some p \<Rightarrow>
          let p = take BUFFER_SIZE p in
          (case buf of
             None \<Rightarrow> (if p = [] then 0 else -1, None)
           | Some b \<Rightarrow> (int (length p), Some (p @ drop (length p) b))))"

definition poll_body :: "recv_event \<Rightarrow> poll_vars \<Rightarrow> ('w afp_world_scheme, poll_vars outcome) prog" where
  "poll_body ev v =
     (if poll_ret ev < 0 then ret (Continue v)
      else if revents ev AND POLLIN \<noteq> 0
      then
        let (data_size, buf) = recvfrom (buffer v) (received ev) in
        if data_size < 0
        then pbind (puts (''Recvfrom error , failed to get packets'' @ nl)) (\<lambda>_. ret (Return 1))
        else (case buf of
                None \<Rightarrow> stop NullPtr
              | Some b \<Rightarrow>
                  pbind (ProcessPacket b data_size) (\<lambda>_.
                  ret (Continue \<lparr>buffer = buf, poll_stats = count_packet (word_of_int data_size) (poll_stats v)\<rparr>)))
      else ret (Continue v))"

definition poll_loop :: "recv_event env list \<Rightarrow> poll_vars \<Rightarrow> ('w run_world_scheme, poll_vars ending) prog" where
  "poll_loop = while_running poll_body"

text \<open>\<^verbatim>\<open>malloc\<close> with its result: \<open>fresh\<close> are the bytes the block happens to hold.\<close>

definition malloc_buffer :: "(nat \<Rightarrow> byte) \<Rightarrow> nat \<Rightarrow> ('w world_scheme, byte list option) prog" where
  "malloc_buffer fresh n w =
     (if alloc_ok w (n_alloc w)
      then Inr (Some (map fresh [0..<n]), w\<lparr>n_alloc := n_alloc w + 1, live := live w + 1\<rparr>)
      else Inr (None, w\<lparr>n_alloc := n_alloc w + 1\<rparr>))"

text \<open>After the loop.\<close>

definition poll_finish :: "os \<Rightarrow> 'd double_ops \<Rightarrow> int \<Rightarrow> poll_vars ending \<Rightarrow> ('w cap_world_scheme, int status) prog" where
  "poll_finish os d sockfd r =
     (case r of
        Done v \<Rightarrow>
          pbind (print_stats d (clock_end os) (poll_stats v)) (\<lambda>_.
          pbind (close_sock sockfd) (\<lambda>_.
          ret (Value 0)))
      | Returned n \<Rightarrow> ret (Value n)
      | Still_running \<Rightarrow> ret Running)"

definition AFPPacketProcessPoll ::
    "os \<Rightarrow> 'd double_ops \<Rightarrow> (nat \<Rightarrow> byte) \<Rightarrow> recv_event env list \<Rightarrow> ('w cap_world_scheme, int status) prog" where
  "AFPPacketProcessPoll os d fresh es =
     pbind (malloc_buffer fresh BUFFER_SIZE) (\<lambda>buf.
     pbind (open_log os ''log_poll.txt'' ''log.txt'') (\<lambda>_.
     pbind (puts (''Starting...'' @ nl)) (\<lambda>_.
     case getenv os DEVICE_INTERFACE of
       None \<Rightarrow> errx os 1 ''ERROR: failed to load environment device interface''
     | Some dev_interface \<Rightarrow>
         pbind (open_socket os) (\<lambda>r.
         case r of
           Inl e \<Rightarrow> pbind (perror ''Socket Error'' e) (\<lambda>_. ret (Value 1))
         | Inr sockfd \<Rightarrow>
             xbind (AFPGetIfnumByDev os sockfd dev_interface 0) (\<lambda>if_idx.
             if if_idx = -1 then ret (Value 1)
             else
               pbind (case bind_call os sockfd (bind_address if_idx) of
                        Inl e \<Rightarrow> perror ''bind socket error'' e
                      | Inr _ \<Rightarrow> ret ()) (\<lambda>_.
               pbind (poll_loop es \<lparr>buffer = buf, poll_stats = init_stats (clock_start os) zero_stats\<rparr>)
                     (poll_finish os d sockfd)))))))"

section \<open>What a script delivers\<close>

text \<open>
  The packets of a script up to its first stop signal or receive error, cut off at the size of the
  buffer; and whether an error is what ends them.
\<close>

definition delivered :: "recv_event \<Rightarrow> bool" where
  "delivered ev \<longleftrightarrow> \<not> poll_ret ev < 0 \<and> revents ev AND POLLIN \<noteq> 0"

fun packets :: "recv_event env list \<Rightarrow> byte list list" where
  "packets [] = []"
| "packets (Signal s # es) = (if s = SIGTERM \<or> s = SIGINT then [] else packets es)"
| "packets (Input ev # es) =
     (if delivered ev
      then (case received ev of None \<Rightarrow> [] | Some p \<Rightarrow> take BUFFER_SIZE p # packets es)
      else packets es)"

fun script_end :: "recv_event env list \<Rightarrow> unit ending" where
  "script_end [] = Still_running"
| "script_end (Signal s # es) = (if s = SIGTERM \<or> s = SIGINT then Done () else script_end es)"
| "script_end (Input ev # es) =
     (if delivered ev \<and> received ev = None then Returned 1 else script_end es)"

text \<open>The buffer after a packet: its bytes over those before.\<close>

definition overlay :: "byte list \<Rightarrow> byte list \<Rightarrow> byte list" where
  "overlay p b = p @ drop (length p) b"

text \<open>The state and the buffer after a list of packets.\<close>

fun received_all :: "byte list list \<Rightarrow> byte list \<Rightarrow> 'w afp_world_scheme \<Rightarrow> byte list \<times> 'w afp_world_scheme" where
  "received_all [] b w = (b, w)"
| "received_all (p # ps) b w =
     received_all ps (overlay p b) (processed (overlay p b) (int (length p)) w)"

lemma length_overlay: "length p \<le> length b \<Longrightarrow> length (overlay p b) = length b"
  by (simp add: overlay_def)

lemma recvfrom_Some:
  "recvfrom (Some b) (Some p) = (int (length (take BUFFER_SIZE p)), Some (overlay (take BUFFER_SIZE p) b))"
  by (simp add: recvfrom_def overlay_def Let_def)

lemma poll_body_quiet: "\<not> delivered ev \<Longrightarrow> poll_body ev v w = Inr (Continue v, w)"
  by (auto simp: poll_body_def delivered_def)

lemma poll_body_error:
  "delivered ev \<Longrightarrow> received ev = None \<Longrightarrow>
     poll_body ev v w = Inr (Return 1, grown 0 (''Recvfrom error , failed to get packets'' @ nl) w)"
  by (simp add: poll_body_def delivered_def recvfrom_def)

lemma poll_body_packet:
  assumes "delivered ev" and "received ev = Some p" and "buffer v = Some b" and "length b = BUFFER_SIZE"
    and "log_open w" and "tally_inv w" and "total_count w < INT_MAX"
  shows "poll_body ev v w =
    (let q = take BUFFER_SIZE p in
     Inr (Continue \<lparr>buffer = Some (overlay q b), poll_stats = count_packet (of_nat (length q)) (poll_stats v)\<rparr>,
          processed (overlay q b) (int (length q)) w))"
proof -
  let ?q = "take BUFFER_SIZE p"
  have "length ?q \<le> length b" using assms(4) by simp
  then have "ProcessPacket (overlay ?q b) (int (length ?q)) w = Inr (0, processed (overlay ?q b) (int (length ?q)) w)"
    using assms by (intro ProcessPacket_roomy) (simp_all add: roomy_def length_overlay BUFFER_SIZE_def INT_MAX_def)
  then show ?thesis
    using assms(1-3) by (simp add: poll_body_def delivered_def recvfrom_Some Let_def pbind_step)
qed

lemma received_all_keeps:
  "counters (snd (received_all ps b w)) ! 0 = total_count w + int (length ps)"
  "tally_inv w \<Longrightarrow> tally_inv (snd (received_all ps b w))"
  "log_open (snd (received_all ps b w)) = log_open w"
  by (induction ps arbitrary: b w) (simp_all add: counters_def tally_inv_processed)

lemma total_received_all [simp]: "total_count (snd (received_all ps b w)) = total_count w + int (length ps)"
  using received_all_keeps(1) [of ps b w] by (simp add: counters_def)

text \<open>Only the output and the flag have changed.\<close>

definition announced :: "'w run_world_scheme \<Rightarrow> 'w run_world_scheme \<Rightarrow> bool" where
  "announced w w' \<longleftrightarrow> (\<exists>t r. w' = w\<lparr>out := t, running := r\<rparr>)"

lemma announced_intros:
  fixes w :: "'w run_world_scheme"
  shows "announced w w" "announced w (w\<lparr>out := t\<rparr>)" "announced w (w\<lparr>running := r, out := t\<rparr>)"
proof -
  have "w = w\<lparr>out := out w, running := running w\<rparr>" "w\<lparr>out := t\<rparr> = w\<lparr>out := t, running := running w\<rparr>"
    "w\<lparr>running := r, out := t\<rparr> = w\<lparr>out := t, running := r\<rparr>" by (cases w; simp)+
  then show "announced w w" "announced w (w\<lparr>out := t\<rparr>)" "announced w (w\<lparr>running := r, out := t\<rparr>)"
    unfolding announced_def by blast+
qed

lemma interrupted_signal:
  fixes w :: "'w run_world_scheme"
  assumes "s = SIGTERM \<or> s = SIGINT"
  shows "\<exists>w'. while_running body (Signal s # es) v w = Inr (Done v, w') \<and> announced w w'"
proof -
  obtain t where t: "signal_handler s w = Inr ((), w\<lparr>out := t, running := False\<rparr>)"
    using assms by (auto simp: signal_handler_def modify_def grown_def)
  have "w\<lparr>out := t, running := False\<rparr> = w\<lparr>running := False, out := t\<rparr>" by (cases w) simp
  note t = t [unfolded this]
  have "\<not> running (w\<lparr>running := False, out := t\<rparr>)" by simp
  from stopped [OF this, of body es v] obtain t' where
    "while_running body es v (w\<lparr>running := False, out := t\<rparr>) = Inr (Done v, w\<lparr>running := False, out := t'\<rparr>)"
    by auto
  then have "while_running body (Signal s # es) v w = Inr (Done v, w\<lparr>running := False, out := t'\<rparr>)"
    using t by (simp add: pbind_step)
  then show ?thesis using announced_intros(3) by blast
qed

lemma some_vars [simp]: "\<exists>v :: poll_vars. poll_stats v = s"
  by (rule exI [of _ "\<lparr>buffer = None, poll_stats = s\<rparr>"]) simp

text \<open>A script against the loop: it ends as the script says, in the state the packets leave.\<close>

lemma poll_loop_run:
  fixes w :: "'w run_world_scheme"
  assumes "buffer v = Some b" and "length b = BUFFER_SIZE" and "log_open w" and "tally_inv w" and "running w"
    and "total_count w + int (length (packets es)) \<le> INT_MAX"
  shows "\<exists>v' w'. poll_loop es v w = Inr (map_ending (\<lambda>_. v') (script_end es), w') \<and>
      announced (snd (received_all (packets es) b w)) w' \<and>
      poll_stats v' = fold count_packet (map (\<lambda>p. of_nat (length p)) (packets es)) (poll_stats v)"
  using assms
proof (induction es arbitrary: v b w rule: packets.induct)
  case 1
  then show ?case by (simp add: poll_loop_def announced_intros)
next
  case (2 s es)
  show ?case
  proof (cases "s = SIGTERM \<or> s = SIGINT")
    case True
    then show ?thesis using interrupted_signal [OF True, of poll_body es v w] by (auto simp: poll_loop_def)
  next
    case False
    then have "poll_loop (Signal s # es) v w = poll_loop es v w" by (simp add: poll_loop_def signal_handler_def)
    with 2 False show ?thesis by simp
  qed
next
  case (3 ev es)
  have run: "poll_loop (Input ev # es) v w = pbind (poll_body ev v) (\<lambda>o'.
      case o' of Continue v \<Rightarrow> poll_loop es v | Break v \<Rightarrow> ret (Done v) | Return n \<Rightarrow> ret (Returned n)) w"
    using "3.prems"(5) unfolding poll_loop_def by simp
  consider "\<not> delivered ev" | "delivered ev" "received ev = None" | p where "delivered ev" "received ev = Some p"
    by (cases "received ev") auto
  then show ?case
  proof cases
    case 1
    with 3 show ?thesis by (simp add: run pbind_step [OF poll_body_quiet])
  next
    case 2
    then show ?thesis
      by (simp add: run pbind_step [OF poll_body_error] announced_intros)
        (simp add: grown_def announced_intros)
  next
    case p: 3
    let ?q = "take BUFFER_SIZE p" and ?b = "overlay (take BUFFER_SIZE p) b"
    let ?v = "\<lparr>buffer = Some ?b, poll_stats = count_packet (of_nat (length ?q)) (poll_stats v)\<rparr>"
    let ?w = "processed ?b (int (length ?q)) w"
    have ps: "packets (Input ev # es) = ?q # packets es" "script_end (Input ev # es) = script_end es"
      using p by simp_all
    have "poll_body ev v w = Inr (Continue ?v, ?w)"
      using poll_body_packet [OF p "3.prems"(1-4)] "3.prems"(6) ps by (simp add: Let_def)
    then have step: "poll_loop (Input ev # es) v w = poll_loop es ?v ?w" by (simp add: run pbind_step)
    have prems: "buffer ?v = Some ?b" "length ?b = BUFFER_SIZE" "log_open ?w" "tally_inv ?w" "running ?w"
      "total_count ?w + int (length (packets es)) \<le> INT_MAX"
      using "3.prems" ps by (simp_all add: length_overlay tally_inv_processed)
        (simp add: processed_def logged_def addressed_def counted_def Let_def)
    from "3.IH"(1) [OF p prems] show ?thesis
      unfolding step ps received_all.simps list.map fold.simps comp_def by simp
  qed
qed

section \<open>A session\<close>

text \<open>Memory, the log and every call up to the index of the interface succeed.\<close>

definition poll_ready :: "os \<Rightarrow> string \<Rightarrow> nat \<Rightarrow> bool" where
  "poll_ready os dev fd \<longleftrightarrow> fopen_w os ''log_poll.txt'' \<and> getenv os DEVICE_INTERFACE = Some dev \<and>
     socket_call os AF_PACKET SOCK_RAW (htons ETH_P_ALL) = Inr fd \<and>
     (\<exists>i. if_index os (int fd) (ifr_name dev) = Inr i \<and> i \<noteq> -1)"

text \<open>The process at the start of the loop.\<close>

definition poll_opened :: "os \<Rightarrow> string \<Rightarrow> nat \<Rightarrow> 'w cap_world_scheme \<Rightarrow> 'w cap_world_scheme" where
  "poll_opened os dev fd w =
     (let w = log_opened os ''log_poll.txt'' ''log.txt'' (grown 1 [] w);
          w = w\<lparr>socks := int fd # socks w\<rparr> in
      case if_index os (int fd) (ifr_name dev) of
        Inr i \<Rightarrow> (case bind_call os (int fd) (bind_address i) of
                    Inl e \<Rightarrow> w\<lparr>errout := errout w @ ''bind socket error'' @ '': '' @ e @ nl\<rparr>
                  | Inr _ \<Rightarrow> w)
      | Inl _ \<Rightarrow> w)"

lemma poll_start:
  assumes "poll_ready os dev fd" and "ample w"
  shows "AFPPacketProcessPoll os d fresh es w =
    pbind (poll_loop es \<lparr>buffer = Some (map fresh [0..<BUFFER_SIZE]),
                          poll_stats = init_stats (clock_start os) zero_stats\<rparr>)
          (poll_finish os d (int fd)) (poll_opened os dev fd w)"
proof -
  obtain i where i: "if_index os (int fd) (ifr_name dev) = Inr i" "i \<noteq> -1"
    using assms(1) by (auto simp: poll_ready_def)
  have m: "malloc_buffer fresh BUFFER_SIZE w = Inr (Some (map fresh [0..<BUFFER_SIZE]), grown 1 [] w)"
    using assms(2) by (simp add: malloc_buffer_def ample_def grown_def)
  show ?thesis
    using assms(1) i
    unfolding AFPPacketProcessPoll_def pbind_step [where m = "malloc_buffer fresh BUFFER_SIZE", OF m] open_log_run
    by (cases "bind_call os (int fd) (bind_address i)")
      (simp_all add: poll_ready_def open_socket_def pbind_assoc AFPGetIfnumByDev_def poll_opened_def Let_def
)
qed

lemma processed_process [simp]:
  "socks (processed p n w) = socks w" "live (processed p n w) = live w"
  by (simp_all add: processed_def logged_def addressed_def counted_def Let_def)

lemma received_all_process:
  "socks (snd (received_all ps b w)) = socks w" "live (snd (received_all ps b w)) = live w"
  by (induction ps arbitrary: b w) simp_all

lemma poll_opened_fields [simp]:
  assumes "poll_ready os dev fd"
  shows "socks (poll_opened os dev fd w) = int fd # socks w" "live (poll_opened os dev fd w) = live w + 1"
    "log_open (poll_opened os dev fd w)" "tally_inv (poll_opened os dev fd w) = tally_inv w"
    "total_count (poll_opened os dev fd w) = total_count w" "running (poll_opened os dev fd w) = running w"
  using assms
  by (auto simp: poll_opened_def poll_ready_def log_opened_def grown_def log_open_def tally_inv_def Let_def
      split: sum.split)

lemma socks_grown [simp]: "socks (grown k s w) = socks w"
  by (simp add: grown_def)

text \<open>
  A whole session of \<^verbatim>\<open>AFPPacketProcessPoll\<close>, for every script of packets of any length and contents,
  signals and failures, as long as the setup succeeds and fewer than \<open>2^31\<close> packets have been counted. The
  function cannot fault: it returns 0 after a stop signal and 1 after a receive error, and is still
  running otherwise. Every packet before that has been processed exactly once, in order, over what the
  packets before it have left in the buffer. The buffer is never freed, and the socket is closed only
  after a stop signal.
\<close>

lemma poll_session:
  assumes "poll_ready os dev fd" and "ample w" and "tally_inv w" and "running w"
    and "total_count w + int (length (packets es)) \<le> INT_MAX"
  shows "\<exists>w'. AFPPacketProcessPoll os d fresh es w =
      Inr (case script_end es of Done _ \<Rightarrow> Value 0 | Returned n \<Rightarrow> Value n | Still_running \<Rightarrow> Running, w') \<and>
    (let u = snd (received_all (packets es) (map fresh [0..<BUFFER_SIZE]) (poll_opened os dev fd w)) in
     counters w' = counters u \<and> logfile w' = logfile u) \<and>
    tally_inv w' \<and> total_count w' = total_count w + int (length (packets es)) \<and>
    live w' = live w + 1 \<and> socks w' = (if script_end es = Done () then socks w else int fd # socks w)"
proof -
  let ?w = "poll_opened os dev fd w" and ?b = "map fresh [0..<BUFFER_SIZE]"
  let ?v = "\<lparr>buffer = Some ?b, poll_stats = init_stats (clock_start os) zero_stats\<rparr>"
  define u where "u = snd (received_all (packets es) ?b ?w)"
  have u: "tally_inv u" "total_count u = total_count w + int (length (packets es))" "live u = live w + 1"
    "socks u = int fd # socks w"
    using assms by (simp_all add: u_def received_all_keeps received_all_process)
  obtain v' w1 where l: "poll_loop es ?v ?w = Inr (map_ending (\<lambda>_. v') (script_end es), w1)" and a: "announced u w1"
    using poll_loop_run [of ?v ?b ?w es] assms unfolding u_def by auto
  have w1: "counters w1 = counters u" "logfile w1 = logfile u" "tally_inv w1 = tally_inv u"
    "total_count w1 = total_count u" "live w1 = live u" "socks w1 = socks u"
    using a by (auto simp: announced_def counters_def tally_inv_def)
  define w' where "w' = (if script_end es = Done ()
      then (grown 0 (stats_text d (clock_end os) (poll_stats v')) w1)\<lparr>socks := socks w\<rparr> else w1)"
  have "poll_finish os d (int fd) (map_ending (\<lambda>_. v') (script_end es)) w1 =
      Inr (case script_end es of Done _ \<Rightarrow> Value 0 | Returned n \<Rightarrow> Value n | Still_running \<Rightarrow> Running, w')"
    using w1 u by (cases "script_end es")
      (simp_all add: poll_finish_def w'_def pbind_step [OF print_stats_run])
  then have "AFPPacketProcessPoll os d fresh es w =
      Inr (case script_end es of Done _ \<Rightarrow> Value 0 | Returned n \<Rightarrow> Value n | Still_running \<Rightarrow> Running, w')"
    using poll_start [OF assms(1,2), of d fresh es] l by (simp add: pbind_step)
  moreover have "counters w' = counters w1" "logfile w' = logfile w1" "tally_inv w' = tally_inv w1"
    "total_count w' = total_count w1" "live w' = live w1"
    by (simp_all add: w'_def grown_def counters_def tally_inv_def)
  moreover have "socks w' = (if script_end es = Done () then socks w else int fd # socks w)"
    using w1 u by (simp add: w'_def)
  ultimately show ?thesis using w1 u by (auto simp: u_def Let_def)
qed

section \<open>The protocol a packet is counted under\<close>

text \<open>
  Byte 23 of the buffer after each packet of a list, when it was \<open>k\<close> before: a packet of fewer than 24
  bytes does not reach it.
\<close>

fun protocols :: "byte \<Rightarrow> byte list list \<Rightarrow> byte list" where
  "protocols k [] = []"
| "protocols k (p # ps) = (let k = if 24 \<le> length p then p ! 23 else k in k # protocols k ps)"

text \<open>The six counters after packets of the protocols \<open>ks\<close>.\<close>

definition tallied :: "byte list \<Rightarrow> int list \<Rightarrow> int list" where
  "tallied ks c =
     (let n = (\<lambda>k. int (count_list ks k)) in
      [c ! 0 + int (length ks), c ! 1 + n 6, c ! 2 + n 17, c ! 3 + n 1, c ! 4 + n 2,
       c ! 5 + int (length (filter (\<lambda>k. k \<notin> {1, 2, 6, 17}) ks))])"

lemma tallied_Nil: "tallied [] (counters w) = counters w"
  by (simp add: tallied_def counters_def)

lemma tallied_Cons: "tallied (k # ks) (counters w) = tallied ks (counters (counted k w))"
  by (simp add: tallied_def counters_def counted_def Let_def)

lemma counters_of_processed: "counters (processed p n w) = counters (counted (p ! 23) w)"
  by (simp add: counters_def)

lemma overlay_23:
  "length b = BUFFER_SIZE \<Longrightarrow> overlay p b ! 23 = (if 24 \<le> length p then p ! 23 else b ! 23)"
  by (auto simp: overlay_def nth_append BUFFER_SIZE_def)

lemma received_all_tallied:
  "length b = BUFFER_SIZE \<Longrightarrow> \<forall>p \<in> set ps. length p \<le> BUFFER_SIZE \<Longrightarrow>
     counters (snd (received_all ps b w)) = tallied (protocols (b ! 23) ps) (counters w)"
proof (induction ps arbitrary: b w)
  case Nil
  then show ?case by (simp add: tallied_Nil)
next
  case (Cons p ps)
  then have "length (overlay p b) = BUFFER_SIZE" by (simp add: length_overlay)
  from Cons.IH [OF this] Cons.prems show ?case
    by (simp add: Let_def tallied_Cons counters_of_processed overlay_23 del: counters_processed)
qed

lemma packets_bounded: "p \<in> set (packets es) \<Longrightarrow> length p \<le> BUFFER_SIZE"
  by (induction es rule: packets.induct) (auto split: if_splits option.splits dest: sym [of "Some _"])

section \<open>Properties\<close>

text \<open>
  C34: what decides how a packet is counted. On every script, each packet of at least 24 bytes is counted
  under its own protocol, and each shorter one under the protocol of the last packet before it that
  was not short, whose bytes are still in the buffer; before the first such packet, under whatever
  byte the memory of the buffer held. The counters grow by exactly these numbers.
\<close>

theorem poll_stale_protocol:
  assumes "poll_ready os dev fd" and "ample w" and "tally_inv w" and "running w"
    and "total_count w + int (length (packets es)) \<le> INT_MAX"
  shows "\<exists>r w'. AFPPacketProcessPoll os d fresh es w = Inr (r, w') \<and>
    (let ks = protocols (fresh 23) (packets es); n = (\<lambda>k. int (count_list ks k)) in
     tcp_count w' = tcp_count w + n 6 \<and> udp_count w' = udp_count w + n 17 \<and>
     icmp_count w' = icmp_count w + n 1 \<and> igmp_count w' = igmp_count w + n 2 \<and>
     others_count w' = others_count w + int (length (filter (\<lambda>k. k \<notin> {1, 2, 6, 17}) ks)))"
proof -
  let ?b = "map fresh [0..<BUFFER_SIZE]" and ?w = "poll_opened os dev fd w"
  have opened: "counters ?w = counters w"
    by (simp add: counters_def poll_opened_def grown_def Let_def split: sum.split)
  have b: "length ?b = BUFFER_SIZE" "?b ! 23 = fresh 23" by (simp_all add: BUFFER_SIZE_def)
  obtain r w' where run: "AFPPacketProcessPoll os d fresh es w = Inr (r, w')"
    and w': "counters w' = counters (snd (received_all (packets es) ?b ?w))"
    using poll_session [OF assms, of d fresh] unfolding Let_def by auto
  have "counters w' = tallied (protocols (fresh 23) (packets es)) (counters w)"
    unfolding w' using received_all_tallied [of ?b "packets es" ?w] b opened by (simp add: packets_bounded)
  then show ?thesis
    using run by (intro exI [of _ r] exI [of _ w']) (simp add: counters_def tallied_def Let_def)
qed

text \<open>A UDP packet followed by an empty one.\<close>

definition start_poll :: cap_world where
  "start_poll = start_cap\<lparr>ring_mem := \<lambda>_. 0\<rparr>"

lemma start_poll_fields:
  "tally_inv start_poll" "total_count start_poll = 0" "udp_count start_poll = 0" "running start_poll" "ample start_poll"
  by (simp_all add: start_poll_def start_cap_def start_ring_def start_afp_def ring_world.defs afp_world.defs
      tally_inv_def ample_def)

lemma calm_os_poll: "poll_ready calm_os ''eth0'' 3"
  by (simp add: poll_ready_def calm_os_def)

theorem poll_stale_protocol_witness:
  "\<exists>r w'. AFPPacketProcessPoll calm_os no_doubles (\<lambda>_. 0)
      [Input \<lparr>poll_ret = 1, revents = POLLIN, received = Some (replicate 60 17)\<rparr>,
       Input \<lparr>poll_ret = 1, revents = POLLIN, received = Some []\<rparr>, Signal SIGINT] start_poll = Inr (r, w') \<and>
     udp_count w' = 2 \<and> others_count w' = others_count start_poll"
proof -
  let ?es = "[Input \<lparr>poll_ret = 1, revents = POLLIN, received = Some (replicate 60 (17 :: byte))\<rparr>,
       Input \<lparr>poll_ret = 1, revents = POLLIN, received = Some []\<rparr>, Signal SIGINT]"
  have ps: "packets ?es = [replicate 60 17, []]"
    by (simp add: delivered_def POLLIN_def BUFFER_SIZE_def)
  have "total_count start_poll + int (length (packets ?es)) \<le> INT_MAX"
    unfolding ps by (simp add: start_poll_fields INT_MAX_def)
  from poll_stale_protocol [OF calm_os_poll start_poll_fields(5,1,4) this, of no_doubles "\<lambda>_. 0"]
  show ?thesis unfolding ps Let_def by (auto simp: start_poll_fields)
qed

end
