(* ===== verification/Afp_Main.thy ===== *)
theory Afp_Main
  imports Afp_Poll
begin

text \<open>
  The \<^verbatim>\<open>main\<close> of \<^verbatim>\<open>sniff_afpacket/src/main.c\<close>. An argument vector without its second entry ends in the
  null pointer that closes it, which \<^verbatim>\<open>strcmp\<close> then reads.
\<close>

definition sniff_main ::
    "os \<Rightarrow> 'd double_ops \<Rightarrow> (nat \<Rightarrow> byte) \<Rightarrow> nat \<Rightarrow> string list \<Rightarrow> poll_event env list \<Rightarrow> recv_event env list \<Rightarrow>
     ('w cap_world_scheme, int status) prog" where
  "sniff_main os d fresh pid argv ring_script poll_script =
     pbind (puts (''program is running at process id: '' @ show_dec pid @ nl)) (\<lambda>_.
     pbind (if length argv \<noteq> 2
            then (case argv of
                    [] \<Rightarrow> stop NullPtr
                  | name # _ \<Rightarrow> puts (''Usage: '' @ name @ '' [ring|poll]'' @ nl))
            else ret ()) (\<lambda>_.
     case argv of
       _ # arg # _ \<Rightarrow>
         xbind (if arg = ''ring'' then AFPPacketProcessUsingRingBufferPolling os d ring_script
                else if arg = ''poll'' then AFPPacketProcessPoll os d fresh poll_script
                else ret (Value 0)) (\<lambda>_.
         pbind (puts ''Finished'') (\<lambda>_.
         ret (Value 0)))
     | _ \<Rightarrow> stop NullPtr))"

section \<open>Stopping\<close>

text \<open>A program that is not left running.\<close>

definition stops :: "('s, 'a status) prog \<Rightarrow> bool" where
  "stops m \<longleftrightarrow> (\<forall>w w'. m w \<noteq> Inr (Running, w'))"

named_theorems stops_intros

lemma stops_pbind [stops_intros]: "(\<And>a. stops (f a)) \<Longrightarrow> stops (pbind m f)"
  by (auto simp: stops_def pbind_Inr_iff)

lemma stops_xbind [stops_intros]: "stops m \<Longrightarrow> (\<And>a. stops (f a)) \<Longrightarrow> stops (xbind m f)"
  by (auto simp: stops_def xbind_def pbind_Inr_iff split: status.splits)

lemma stops_basic [stops_intros]:
  "stops (ret (Value a))" "stops (ret (Exits n))" "stops (errx os c s)" "stops (stop e)" "stops (die c)"
  by (simp_all add: stops_def die_def)

lemma stops_if [stops_intros]: "(c \<Longrightarrow> stops m) \<Longrightarrow> (\<not> c \<Longrightarrow> stops m') \<Longrightarrow> stops (if c then m else m')"
  by simp

lemma stops_cases [stops_intros]:
  "(\<And>a. r = Inl a \<Longrightarrow> stops (f a)) \<Longrightarrow> (\<And>b. r = Inr b \<Longrightarrow> stops (g b)) \<Longrightarrow> stops (case r of Inl a \<Rightarrow> f a | Inr b \<Rightarrow> g b)"
  "(o' = None \<Longrightarrow> stops m) \<Longrightarrow> (\<And>a. o' = Some a \<Longrightarrow> stops (h a)) \<Longrightarrow> stops (case o' of None \<Rightarrow> m | Some a \<Rightarrow> h a)"
  by (simp_all split: sum.split option.split)

lemma stops_AFPGetIfnumByDev [stops_intros]: "stops (AFPGetIfnumByDev os fd dev v)"
  unfolding AFPGetIfnumByDev_def by (intro stops_intros)

lemma stops_ring_setup [stops_intros]: "stops (ring_setup os name label)"
  unfolding ring_setup_def Let_def by (intro stops_intros)

lemma stops_loop:
  assumes "\<exists>e \<in> set es. stop_signal e" and "\<And>r. r \<noteq> Still_running \<Longrightarrow> stops (f r)"
  shows "stops (pbind (while_running body es v) f)"
  using while_running_stops [OF assms(1), of body v] assms(2) unfolding stops_def pbind_Inr_iff by metis

lemma stops_finish:
  "r \<noteq> Still_running \<Longrightarrow> stops (ring_finish os d fd r)" "r' \<noteq> Still_running \<Longrightarrow> stops (poll_finish os d fd r')"
  unfolding ring_finish_def poll_finish_def by (cases r; cases r'; auto intro: stops_intros)+

lemma stops_Polling: "\<exists>e \<in> set es. stop_signal e \<Longrightarrow> stops (AFPPacketProcessUsingRingBufferPolling os d es)"
  unfolding AFPPacketProcessUsingRingBufferPolling_def polling_loop_def
  by (intro stops_intros stops_loop stops_finish)

lemma stops_NoPolling: "\<exists>e \<in> set es. stop_signal e \<Longrightarrow> stops (AFPPacketProcessUsingRingBufferNoPolling os d es)"
  unfolding AFPPacketProcessUsingRingBufferNoPolling_def noPolling_loop_def
  by (intro stops_intros stops_loop stops_finish)

lemma stops_Poll: "\<exists>e \<in> set es. stop_signal e \<Longrightarrow> stops (AFPPacketProcessPoll os d fresh es)"
  unfolding AFPPacketProcessPoll_def poll_loop_def
  by (intro stops_intros stops_loop stops_finish)

lemma stops_main:
  assumes "\<exists>e \<in> set ring_script. stop_signal e" and "\<exists>e \<in> set poll_script. stop_signal e"
  shows "stops (sniff_main os d fresh pid argv ring_script poll_script)"
  unfolding sniff_main_def
  by (cases argv rule: remdups_adj.cases)
    (simp_all add: stops_intros stops_Polling [OF assms(1)] stops_Poll [OF assms(2)])

section \<open>Properties\<close>

text \<open>
  C10: a termination or interrupt signal stops the program. Whatever the system calls return, whatever
  the kernel and the network deliver and whenever the signal comes, \<^verbatim>\<open>main\<close> is not left in a loop when
  the scripts of both loops contain such a signal.
\<close>

theorem main_stops:
  assumes "\<exists>e \<in> set ring_script. stop_signal e" and "\<exists>e \<in> set poll_script. stop_signal e"
  shows "sniff_main os d fresh pid argv ring_script poll_script w \<noteq> Inr (Running, w')"
  using stops_main [OF assms] unfolding stops_def by blast

theorem main_stops_witness:
  "\<forall>w'. sniff_main calm_os no_doubles (\<lambda>_. 0) 7 [''sniff'', ''ring''] [Signal SIGTERM] [Signal SIGTERM] start_cap
     \<noteq> Inr (Running, w')"
  by (intro allI main_stops) simp_all

text \<open>
  Without an argument \<^verbatim>\<open>main\<close> prints how it is to be used and then goes on: it compares the null
  pointer behind the vector.
\<close>

theorem main_without_argument:
  assumes "length argv < 2"
  shows "sniff_main os d fresh pid argv ring_script poll_script w = Inl NullPtr"
  using assms by (cases argv rule: remdups_adj.cases) (simp_all add: sniff_main_def)

theorem main_without_argument_witness:
  "sniff_main calm_os no_doubles (\<lambda>_. 0) 7 [''sniff''] [] [] start_cap = Inl NullPtr"
  by (rule main_without_argument) simp

text \<open>What \<^verbatim>\<open>main\<close> prints first.\<close>

definition banner :: "nat \<Rightarrow> string" where
  "banner pid = ''program is running at process id: '' @ show_dec pid @ nl"

lemma sniff_main_run:
  "sniff_main os d fresh pid [name, ''ring''] rs ps w =
     xbind (AFPPacketProcessUsingRingBufferPolling os d rs) (\<lambda>_. pbind (puts ''Finished'') (\<lambda>_. ret (Value 0)))
       (grown 0 (banner pid) w)"
  "sniff_main os d fresh pid [name, ''poll''] rs ps w =
     xbind (AFPPacketProcessPoll os d fresh ps) (\<lambda>_. pbind (puts ''Finished'') (\<lambda>_. ret (Value 0)))
       (grown 0 (banner pid) w)"
  by (simp_all add: sniff_main_def banner_def)

lemma grown_fields [simp]:
  "ring_mem (grown 0 s w) = ring_mem w" "tally_inv (grown 0 s w) = tally_inv w" "running (grown 0 s w) = running w"
  "total_count (grown 0 s w) = total_count w" "mappings (grown 0 s w) = mappings w" "log_files (grown 0 s w) = log_files w"
  by (simp_all add: grown_def tally_inv_def)

text \<open>
  C2: the program run with \<^verbatim>\<open>ring\<close> on a system where every call succeeds takes the frames that are ready,
  in order, until the signal, and prints its banner, the session and \<^verbatim>\<open>Finished\<close>; it returns 0 with
  nothing held but the log file.
\<close>

theorem main_ring_session:
  assumes "ring_ready os dev fd" and "fopen_w os ''log_ring_buffer_poll.txt''" and "queue_fits (ring_mem w) 0"
    and "tally_inv w" and "total_count w + int n \<le> INT_MAX" and "n \<le> length (ring_queue (ring_mem w) 0)"
    and "running w"
  shows "\<exists>w'. sniff_main os d fresh pid [name, ''ring'']
      (replicate n (Input \<lparr>kernel_did = id, poll_result = 1, poll_error = []\<rparr>) @ [Signal SIGTERM]) ps w = Inr (Value 0, w') \<and>
    socks w' = socks w \<and> mappings w' = mappings w \<and> log_files w' = log_files w + 1 \<and>
    total_count w' = total_count w + int n \<and>
    ring_queue (ring_mem w') (n mod NUM_FRAMES) = drop n (ring_queue (ring_mem w) 0) \<and>
    out w' = out w @ banner pid @ session_text d os dev (take n (ring_queue (ring_mem w) 0)) @ ''Finished''"
proof -
  let ?w = "grown 0 (banner pid) w"
  have pre: "queue_fits (ring_mem ?w) 0" "tally_inv ?w" "total_count ?w + int n \<le> INT_MAX"
    "n \<le> length (ring_queue (ring_mem ?w) 0)" "running ?w" using assms(3-7) by simp_all
  let ?es = "replicate n (Input \<lparr>kernel_did = id, poll_result = 1, poll_error = []\<rparr>) @ [Signal SIGTERM]"
  obtain w1 where r: "AFPPacketProcessUsingRingBufferPolling os d ?es ?w = Inr (Value 0, w1)"
    and w1: "socks w1 = socks w" "mappings w1 = mappings w" "log_files w1 = log_files w + 1"
    "total_count w1 = total_count w + int n"
    "ring_queue (ring_mem w1) (n mod NUM_FRAMES) = drop n (ring_queue (ring_mem w) 0)"
    "out w1 = (out w @ banner pid) @ session_text d os dev (take n (ring_queue (ring_mem w) 0))"
    using polling_session [OF assms(1,2) pre, of d] by auto
  have "sniff_main os d fresh pid [name, ''ring''] ?es ps w = Inr (Value 0, grown 0 ''Finished'' w1)"
    unfolding sniff_main_run using r by (simp add: xbind_run)
  then show ?thesis using w1 by (intro exI [of _ "grown 0 ''Finished'' w1"]) simp
qed

theorem main_ring_session_witness:
  "\<exists>w'. sniff_main calm_os no_doubles (\<lambda>_. 0) 7 [''sniff'', ''ring'']
      [Input \<lparr>kernel_did = id, poll_result = 1, poll_error = []\<rparr>, Signal SIGTERM] [] (start_cap\<lparr>ring_mem := one_frame\<rparr>)
        = Inr (Value 0, w') \<and> socks w' = [] \<and> total_count w' = 1"
proof -
  let ?w = "start_cap\<lparr>ring_mem := one_frame\<rparr>"
  have "fopen_w calm_os ''log_ring_buffer_poll.txt''" by (simp add: calm_os_def)
  moreover have "queue_fits (ring_mem ?w) 0" "1 \<le> length (ring_queue (ring_mem ?w) 0)"
    by (simp_all add: one_frame_queue)
  moreover have "total_count ?w + int 1 \<le> INT_MAX" "running ?w" "tally_inv ?w"
    by (simp_all add: start_cap_fields INT_MAX_def)
  ultimately obtain w' where "sniff_main calm_os no_doubles (\<lambda>_. 0) 7 [''sniff'', ''ring'']
      (replicate 1 (Input \<lparr>kernel_did = id, poll_result = 1, poll_error = []\<rparr>) @ [Signal SIGTERM]) [] ?w = Inr (Value 0, w')"
    "socks w' = socks ?w" "total_count w' = total_count ?w + int 1"
    using main_ring_session [OF calm_os_ready, of ?w 1 no_doubles "\<lambda>_. 0" 7 "''sniff''" "[]"] by blast
  then show ?thesis by (intro exI [of _ w']) (simp add: start_cap_fields)
qed

text \<open>
  C4: the program run with \<^verbatim>\<open>poll\<close>, for every script of packets of any length and contents, signals and
  failures, as long as the setup succeeds and fewer than \<open>2^31\<close> packets are counted. It cannot fault. Every
  packet before the end of the capture is processed exactly once, in order, over what the packets
  before it have left in the buffer: counters and log are those of \<open>received_all\<close>. When a stop signal or
  a receive error has ended the capture, \<^verbatim>\<open>Finished\<close> is the last thing printed and the exit status is 0 in
  both cases; the buffer is never freed, and after an error the socket is still open.
\<close>

theorem main_poll_session:
  assumes "poll_ready os dev fd" and "ample w" and "tally_inv w" and "running w"
    and "total_count w + int (length (packets ps)) \<le> INT_MAX"
  shows "\<exists>w' s. sniff_main os d fresh pid [name, ''poll''] rs ps w =
      Inr (if script_end ps = Still_running then Running else Value 0, w') \<and>
    (let u = snd (received_all (packets ps) (map fresh [0..<BUFFER_SIZE])
                   (poll_opened os dev fd (grown 0 (banner pid) w))) in
     counters w' = counters u \<and> logfile w' = logfile u) \<and>
    tally_inv w' \<and> total_count w' = total_count w + int (length (packets ps)) \<and>
    (script_end ps \<noteq> Still_running \<longrightarrow> out w' = s @ ''Finished'') \<and> live w' = live w + 1 \<and>
    socks w' = (if script_end ps = Done () then socks w else int fd # socks w)"
proof -
  let ?w = "grown 0 (banner pid) w"
  let ?r = "case script_end ps of Done _ \<Rightarrow> Value 0 | Returned n \<Rightarrow> Value n | Still_running \<Rightarrow> Running"
  define u where "u = snd (received_all (packets ps) (map fresh [0..<BUFFER_SIZE]) (poll_opened os dev fd ?w))"
  have pre: "ample ?w" "tally_inv ?w" "running ?w" "total_count ?w + int (length (packets ps)) \<le> INT_MAX"
    using assms(2-5) by simp_all
  obtain w1 where r: "AFPPacketProcessPoll os d fresh ps ?w = Inr (?r, w1)"
    and w1: "counters w1 = counters u" "logfile w1 = logfile u" "tally_inv w1"
    "total_count w1 = total_count w + int (length (packets ps))" "live w1 = live w + 1"
    "socks w1 = (if script_end ps = Done () then socks w else int fd # socks w)"
    using poll_session [OF assms(1) pre, of d fresh] unfolding u_def Let_def by auto
  define w' where "w' = (if script_end ps = Still_running then w1 else grown 0 ''Finished'' w1)"
  have "sniff_main os d fresh pid [name, ''poll''] rs ps w =
      Inr (if script_end ps = Still_running then Running else Value 0, w')"
    unfolding sniff_main_run using r by (cases "script_end ps") (simp_all add: xbind_run w'_def)
  moreover have "script_end ps \<noteq> Still_running \<longrightarrow> out w' = out w1 @ ''Finished''" by (simp add: w'_def)
  moreover have "counters w' = counters w1" "logfile w' = logfile w1" "tally_inv w' = tally_inv w1"
    "total_count w' = total_count w1" "live w' = live w1" "socks w' = socks w1"
    by (simp_all add: w'_def grown_def counters_def tally_inv_def)
  ultimately show ?thesis unfolding Let_def u_def [symmetric] using w1 by (intro exI [of _ w'] exI [of _ "out w1"]) simp
qed

theorem main_poll_session_witness:
  "\<exists>w' s. sniff_main calm_os no_doubles (\<lambda>_. 0) 7 [''sniff'', ''poll''] []
      [Input \<lparr>poll_ret = 1, revents = POLLIN, received = None\<rparr>] start_poll = Inr (Value 0, w') \<and>
    out w' = s @ ''Finished'' \<and> socks w' = [3]"
proof -
  let ?ps = "[Input \<lparr>poll_ret = 1, revents = POLLIN, received = None\<rparr>]"
  have ps: "packets ?ps = []" "script_end ?ps = Returned 1" by (simp_all add: delivered_def POLLIN_def)
  have "total_count start_poll + int (length (packets ?ps)) \<le> INT_MAX"
    unfolding ps by (simp add: start_poll_fields INT_MAX_def)
  from main_poll_session [OF calm_os_poll start_poll_fields(5,1,4) this, of no_doubles "\<lambda>_. 0" 7 "''sniff''" "[]"]
  show ?thesis unfolding ps Let_def by (auto simp: start_poll_def)
qed

end
