(* ===== verification/Afp_Agree.thy ===== *)
theory Afp_Agree
  imports Afp_Ring
begin

text \<open>
  The two ring captures of \<^verbatim>\<open>sniff_afpacket/src/source-af-packet.c\<close> compared: the loop that spins on
  the status of the current frame, and the one that asks \<^verbatim>\<open>poll\<close> first. They are the same program
  when \<^verbatim>\<open>poll\<close> reports an event exactly when the current frame is ready.
\<close>

section \<open>A truthful poll\<close>

text \<open>What \<^verbatim>\<open>poll\<close> answers when it tells the truth about the current frame after the kernel has acted.\<close>

definition truthful :: "((nat \<Rightarrow> byte) \<Rightarrow> nat \<Rightarrow> byte) \<Rightarrow> ring_vars \<Rightarrow> 'w ring_world_scheme \<Rightarrow> poll_event" where
  "truthful k v w = \<lparr>kernel_did = k,
     poll_result = (if slot_ready (k (ring_mem w)) (frame_num v) then 1 else 0), poll_error = []\<rparr>"

text \<open>The script of the loop without polling, with the answers of a truthful \<^verbatim>\<open>poll\<close> added along its run.\<close>

fun polled ::
    "((nat \<Rightarrow> byte) \<Rightarrow> nat \<Rightarrow> byte) env list \<Rightarrow> ring_vars \<Rightarrow> 'w ring_world_scheme \<Rightarrow> poll_event env list" where
  "polled [] v w = []"
| "polled (Signal s # es) v w =
     Signal s # (case signal_handler s w of Inr (_, w') \<Rightarrow> polled es v w' | Inl _ \<Rightarrow> polled es v w)"
| "polled (Input k # es) v w =
     Input (truthful k v w) #
       (case noPolling_body v (ring_mem_update k w) of
          Inr (Continue v', w') \<Rightarrow> polled es v' w'
        | _ \<Rightarrow> polled es v w)"

text \<open>Only the answers are added: signals and the actions of the kernel are those of the script.\<close>

lemma polled_kernel: "map (map_env kernel_did) (polled es v w) = es"
  by (induction es v w rule: polled.induct)
    (simp_all add: truthful_def split: sum.split outcome.split prod.split)

lemma bodies_agree:
  assumes "frame_num v < NUM_FRAMES"
  shows "polling_body POLLIN (poll_result (truthful k v w)) (poll_error (truthful k v w)) v (ring_mem_update k w)
       = noPolling_body v (ring_mem_update k w)"
  by (simp add: polling_body_eq [OF assms] noPolling_body_eq [OF assms] truthful_def)

lemma noPolling_body_frame_num:
  assumes "frame_num v < NUM_FRAMES" and "noPolling_body v w = Inr (Continue v', w')"
  shows "frame_num v' < NUM_FRAMES"
proof (cases "slot_ready (ring_mem w) (frame_num v)")
  case True
  then have "v' = consumed v w"
    using assms(2) by (auto simp: noPolling_body_eq [OF assms(1)] consume_frame_eq [OF assms(1)] Let_def pbind_Inr_iff)
  then show ?thesis by (simp add: consumed_def NUM_FRAMES_def)
next
  case False
  then show ?thesis using assms by (simp add: noPolling_body_eq)
qed

section \<open>Equivalence of the loops\<close>

lemma kernel_did_truthful [simp]: "kernel_did (truthful k v w) = k"
  by (simp add: truthful_def)

text \<open>One turn of a loop, by the result of its body.\<close>

lemma while_running_Input:
  "while_running body (Input i # es) v w =
     (if \<not> running w then Inr (Done v, w)
      else case body i v w of
        Inl f \<Rightarrow> Inl f
      | Inr (Continue v', w') \<Rightarrow> while_running body es v' w'
      | Inr (Break v', w') \<Rightarrow> Inr (Done v', w')
      | Inr (Return n, w') \<Rightarrow> Inr (Returned n, w'))"
  by (simp add: pbind_def gets_def ret_def split: sum.split outcome.split prod.split)

lemma while_running_Signal:
  "signal_handler s w = Inr ((), w') \<Longrightarrow> while_running body (Signal s # es) v w = while_running body es v w'"
  by (simp add: pbind_step)

lemma kernel_then: "pbind (modify (ring_mem_update k)) (\<lambda>_. m) w = m (ring_mem_update k w)"
  by (simp add: pbind_def modify_def)

lemmas loop_simps = polling_loop_def noPolling_loop_def while_running_Input while_running_Signal kernel_then

lemma loops_agree_run:
  "frame_num v < NUM_FRAMES \<Longrightarrow> polling_loop (polled es v w) v w = noPolling_loop es v w"
proof (induction es v w rule: polled.induct)
  case (1 v w)
  then show ?case by (simp add: loop_simps)
next
  case (2 s es v w)
  obtain w' where "signal_handler s w = Inr ((), w')"
    by (cases "s = SIGTERM \<or> s = SIGINT") (auto simp: signal_handler_def modify_def)
  with 2 show ?case by (simp add: loop_simps del: while_running.simps)
next
  case (3 k es v w)
  note agree = bodies_agree [OF "3.prems", of k w]
  show ?case
  proof (cases "\<exists>v' w'. noPolling_body v (ring_mem_update k w) = Inr (Continue v', w')")
    case True
    then obtain v' w' where step: "noPolling_body v (ring_mem_update k w) = Inr (Continue v', w')" by blast
    have "polling_loop (polled es v' w') v' w' = noPolling_loop es v' w'"
      using "3.IH"(2) [OF step refl refl] noPolling_body_frame_num [OF "3.prems" step] .
    then show ?thesis
      using agree step by (simp add: loop_simps del: while_running.simps)
  next
    case False
    then show ?thesis using agree
      by (auto simp: loop_simps simp del: while_running.simps split: sum.split outcome.split)
  qed
qed

section \<open>Properties\<close>

text \<open>
  C9: the two loops over the ring are equivalent when \<^verbatim>\<open>poll\<close> is truthful. Take any script of kernel
  actions and signals for the loop without polling, and give the loop with polling the same script,
  where \<^verbatim>\<open>poll\<close> reports an event exactly when the current frame is ready: the loops run the same, to
  the same end with the same frame number and statistics, the same log, counters and region, and to
  the same fault if there is one.
\<close>

theorem loops_agree:
  assumes "frame_num v < NUM_FRAMES"
  shows "polling_loop (polled es v w) v w = noPolling_loop es v w \<and>
    map (map_env kernel_did) (polled es v w) = es"
  using loops_agree_run [OF assms] polled_kernel by blast

text \<open>
  A packet, an idle turn and an interrupt: the truthful answers are an event and a timeout.
\<close>

theorem loops_agree_witness:
  "\<exists>p q v' w'. poll_result p = 1 \<and> kernel_did p = (\<lambda>_. one_frame) \<and> poll_result q = 0 \<and> kernel_did q = id \<and>
     polling_loop [Input p, Input q, Signal SIGINT] start_vars start_ring = Inr (Done v', w') \<and>
     noPolling_loop [Input (\<lambda>_. one_frame), Input id, Signal SIGINT] start_vars start_ring = Inr (Done v', w') \<and>
     frame_num v' = 1 \<and> total_count w' = 1"
proof -
  let ?w = "start_ring\<lparr>ring_mem := one_frame\<rparr>" and ?es = "[Input (\<lambda>_. one_frame), Input id, Signal SIGINT]"
  define v' where "v' = consumed start_vars ?w"
  have k: "frame_num start_vars = 0" "frame_num v' = 1"
    by (simp_all add: start_vars_def v'_def consumed_def NUM_FRAMES_def)
  have inv: "log_open ?w" "tally_inv ?w" "total_count ?w < INT_MAX"
    using start_ring_fields by (simp_all add: log_open_def tally_inv_def INT_MAX_def)
  have at0: "frame_num start_vars < NUM_FRAMES" "slot_ready (ring_mem ?w) (frame_num start_vars)"
    "slot_fits (ring_mem ?w) (frame_num start_vars)"
    by (simp_all add: k NUM_FRAMES_def one_frame_slot)
  obtain w1 where taken: "noPolling_body start_vars ?w = Inr (Continue v', w1)" and same: "same_process ?w w1"
    using consume_and_continue [OF at0(1,3) inv] at0(2) by (auto simp: noPolling_body_eq [OF at0(1)] v'_def)
  then have inv1: "total_count w1 = 1" "ring_mem w1 = store64 0 0 one_frame"
    using nopoll.body_Continue [OF at0(1) inv(2), of v' w1] k by auto
  have idle: "\<not> slot_ready (ring_mem w1) (frame_num v')"
    by (simp add: inv1 k slot_ready_def FRAME_SIZE_def store64_def one_frame_def)
  have "ring_mem_update id w1 = w1" by simp
  then have stay: "noPolling_body v' (ring_mem_update id w1) = Inr (Continue v', w1)"
    using idle by (simp only: noPolling_body_eq k NUM_FRAMES_def) simp
  have run: "running start_ring" "running w1" using same by (simp_all add: same_process_def)
  define w2 where "w2 = interrupted w1"
  have sig: "signal_handler SIGINT w1 = Inr ((), w2)" "\<not> running w2" "total_count w2 = 1"
    by (simp_all add: signal_handler_def modify_def w2_def interrupted_def grown_def inv1)
  have "noPolling_loop ?es start_vars start_ring = Inr (Done v', w2)"
    using taken stay sig run by (simp add: loop_simps del: while_running.simps(2,3))
  moreover have "polled ?es start_vars start_ring
      = [Input (truthful (\<lambda>_. one_frame) start_vars start_ring), Input (truthful id v' w1), Signal SIGINT]"
    using taken stay sig by simp
  moreover have "poll_result (truthful (\<lambda>_. one_frame) start_vars start_ring) = 1" "poll_result (truthful id v' w1) = 0"
    using idle by (simp_all add: truthful_def k one_frame_slot)
  ultimately show ?thesis
    using loops_agree [of start_vars ?es start_ring] k sig(3)
    by (intro exI [of _ "truthful (\<lambda>_. one_frame) start_vars start_ring"] exI [of _ "truthful id v' w1"]
        exI [of _ v'] exI [of _ w2]) (simp add: NUM_FRAMES_def)
qed

end
