(* ===== verification/Ethernet_Frame.thy ===== *)
theory Ethernet_Frame
  imports Utils
begin

text \<open>
  \<^verbatim>\<open>sniff/src/ethernet.c\<close>: the Ethernet header, its extraction and its text.
\<close>

datatype ether_method = PrintEtherFrame | PrintMacAddr

text \<open>\<open>None\<close> is a member the code has not written.\<close>

record ethernetFrame =
  dstMac :: "byte list"
  srcMac :: "byte list"
  typ_field :: "byte list option"
  eth_printEtherFrame :: "ether_method option"
  eth_printMacAddr :: "ether_method option"




definition ether_fields :: "cptr \<Rightarrow> fault + ethernetFrame" where
  "ether_fields p =
     rbind (readn p 6) (\<lambda>dst.
     rbind (readn (padd p 6) 6) (\<lambda>src.
     Inr \<lparr>dstMac = dst, srcMac = src, typ_field = None,
          eth_printEtherFrame = Some PrintEtherFrame, eth_printMacAddr = Some PrintMacAddr\<rparr>))"


section \<open>The frame against its layout\<close>

definition ether_layout :: "nat list" where
  "ether_layout = replicate 12 8"

definition ether_vals :: "ethernetFrame \<Rightarrow> nat list" where
  "ether_vals e = map unat (dstMac e @ srcMac e)"

lemma decode_fields_bytes:
  "decode_fields (replicate (length bs) 8) bs = map unat bs"
  by (induction bs) (simp_all add: decode_fields_def split_fields.simps unat_byte_bits)

lemma ether_fields_eq:
  "ether_fields p =
     (if 12 \<le> length p
      then Inr \<lparr>dstMac = take 6 p, srcMac = take 6 (drop 6 p), typ_field = None,
                eth_printEtherFrame = Some PrintEtherFrame, eth_printMacAddr = Some PrintMacAddr\<rparr>
      else Inl OutOfBounds)"
  by (auto simp: ether_fields_def run_simps padd_def)

interpretation ether: header_decoder ether_fields ether_vals ether_layout 12
proof
  show "sum_list ether_layout = 8 * 12" by (simp add: ether_layout_def sum_list_replicate)
  show "\<exists>h. ether_fields bs = Inr h \<and> ether_vals h = decode_fields ether_layout (take 12 bs)"
    if "12 \<le> length bs" for bs
  proof -
    have "take 12 bs = take 6 bs @ take 6 (drop 6 bs)"
      using take_add [of 6 6 bs] by simp
    moreover have "decode_fields ether_layout (take 12 bs) = map unat (take 12 bs)"
      using decode_fields_bytes [of "take 12 bs"] that by (simp add: ether_layout_def min.absorb2)
    ultimately show ?thesis using that by (simp add: ether_fields_eq ether_vals_def)
  qed
  show "ether_fields bs = Inl OutOfBounds" if "length bs < 12" for bs
    using that by (simp add: ether_fields_eq)
  show "h = k" if "ether_fields p = Inr h" "ether_fields q = Inr k" "ether_vals h = ether_vals k"
    for p q h k
  proof -
    from that(1,2) have len: "length (dstMac h) = length (dstMac k)"
      by (auto simp: ether_fields_eq split: if_splits)
    have "map unat (dstMac h @ srcMac h) = map unat (dstMac k @ srcMac k)"
      using that(3) by (simp add: ether_vals_def)
    then have "dstMac h @ srcMac h = dstMac k @ srcMac k"
      by (rule map_injective) (simp add: inj_on_def unat_inj_iff)
    with len have "dstMac h = dstMac k" "srcMac h = srcMac k" by auto
    with that(1,2) show ?thesis by (auto simp: ether_fields_eq split: if_splits)
  qed
qed



section \<open>Properties\<close>



end
