(* ===== verification/Udp_Header.thy ===== *)
theory Udp_Header
  imports Utils
begin

text \<open>
  \<^verbatim>\<open>sniff/src/udp.c\<close>: the UDP header of RFC 768 and its extraction.
\<close>

datatype udp_method = PrintUdpHeader

text \<open>A method slot is \<open>None\<close> while the function pointer is uninitialised.\<close>

record udpHeader =
  udp_srcPort :: u16
  udp_dstPort :: u16
  udp_len :: u16
  udp_sum :: u16
  udp_printUdpHeader :: "udp_method option"

definition printUdpHeader :: "udpHeader \<Rightarrow> ('w world_scheme, unit) prog" where
  "printUdpHeader self = ret ()"

text \<open>The assignments to the fields of the new header; its method is not assigned.\<close>

definition udp_fields :: "cptr \<Rightarrow> fault + udpHeader" where
  "udp_fields udpHeaderPtr =
     rbind (conv2BytesToInt udpHeaderPtr) (\<lambda>srcPort.
     rbind (conv2BytesToInt (padd udpHeaderPtr 2)) (\<lambda>dstPort.
     rbind (conv2BytesToInt (padd udpHeaderPtr 4)) (\<lambda>len.
     rbind (conv2BytesToInt (padd udpHeaderPtr 6)) (\<lambda>sum.
     Inr \<lparr>udp_srcPort = ucast srcPort, udp_dstPort = ucast dstPort, udp_len = ucast len,
          udp_sum = ucast sum, udp_printUdpHeader = None\<rparr>))))"

definition extractUdpHeader :: "cptr \<Rightarrow> ('w world_scheme, udpHeader) prog" where
  "extractUdpHeader udpHeaderPtr = pbind malloc_unchecked (\<lambda>_. lift (udp_fields udpHeaderPtr))"

section \<open>The header against its layout\<close>

definition udp_layout :: "nat list" where
  "udp_layout = [16, 16, 16, 16]"

definition udp_vals :: "udpHeader \<Rightarrow> nat list" where
  "udp_vals h = [unat (udp_srcPort h), unat (udp_dstPort h), unat (udp_len h), unat (udp_sum h)]"

lemma udp_fields_long:
  "8 \<le> length bs \<Longrightarrow>
   \<exists>h. udp_fields bs = Inr h \<and> udp_vals h = decode_fields udp_layout (take 8 bs)"
  by (simp add: udp_fields_def run_simps udp_vals_def udp_layout_def decode_fields_def
      take_nths bit_eval)

lemma udp_fields_short: "length bs < 8 \<Longrightarrow> udp_fields bs = Inl OutOfBounds"
  by (simp add: udp_fields_def run_simps rbind_Inl_iff)

lemma udp_fields_method: "udp_fields p = Inr h \<Longrightarrow> udp_printUdpHeader h = None"
  by (auto simp: udp_fields_def rbind_Inr_iff)

interpretation udp: header_decoder udp_fields udp_vals udp_layout 8
proof
  show "sum_list udp_layout = 8 * 8" by (simp add: udp_layout_def)
  show "\<exists>h. udp_fields bs = Inr h \<and> udp_vals h = decode_fields udp_layout (take 8 bs)"
    if "8 \<le> length bs" for bs
    using that by (rule udp_fields_long)
  show "udp_fields bs = Inl OutOfBounds" if "length bs < 8" for bs
    using that by (rule udp_fields_short)
  show "h = k" if "udp_fields p = Inr h" "udp_fields q = Inr k" "udp_vals h = udp_vals k" for p q h k
    using that udp_fields_method [of p h] udp_fields_method [of q k]
    by (cases h; cases k) (simp add: udp_vals_def unat_inj_iff)
qed

section \<open>Properties\<close>

lemma extractUdpHeader_run:
  "allocs_ok 1 w \<Longrightarrow> extractUdpHeader p w =
     (case udp_fields p of Inl e \<Rightarrow> Inl e | Inr h \<Rightarrow> Inr (h, grown 1 [] w))"
  by (simp add: extractUdpHeader_def pbind_step malloc_unchecked_run lift_def split: sum.split)

text \<open>
  C25: \<^verbatim>\<open>extractUdpHeader\<close> inverts the encoding of RFC 768: for ports, a length and a checksum of 16
  bits each, whatever follows the header, the fields read are the ones encoded, and one live block is
  left. The method slot is still uninitialised.
\<close>

theorem extractUdpHeader_encode:
  assumes "allocs_ok 1 w" and "s < 65536" and "d < 65536" and "l < 65536" and "c < 65536"
  shows "\<exists>h. extractUdpHeader (encode_fields [16, 16, 16, 16] [s, d, l, c] @ rest) w = Inr (h, grown 1 [] w) \<and>
    unat (udp_srcPort h) = s \<and> unat (udp_dstPort h) = d \<and> unat (udp_len h) = l \<and>
    unat (udp_sum h) = c \<and> udp_printUdpHeader h = None"
proof -
  have "fits udp_layout [s, d, l, c]" using assms by (simp add: udp_layout_def)
  from udp.dec_encode [OF this, of rest] obtain h where
    h: "udp_fields (encode_fields udp_layout [s, d, l, c] @ rest) = Inr h" "udp_vals h = [s, d, l, c]"
    by blast
  then show ?thesis
    using assms(1) udp_fields_method [OF h(1)]
    by (simp add: extractUdpHeader_run udp_layout_def udp_vals_def)
qed

theorem extractUdpHeader_encode_witness:
  "\<exists>h. extractUdpHeader (encode_fields [16, 16, 16, 16] [5353, 53, 8, 0xBEEF] @ [1, 2]) start_world
      = Inr (h, grown 1 [] start_world) \<and>
    unat (udp_srcPort h) = 5353 \<and> unat (udp_dstPort h) = 53 \<and> unat (udp_len h) = 8 \<and>
    unat (udp_sum h) = 0xBEEF \<and> udp_printUdpHeader h = None"
  by (rule extractUdpHeader_encode) (simp_all add: ample_allocs_ok)

end
