(* ===== verification/Tcp_Header.thy ===== *)
theory Tcp_Header
  imports Utils
begin

text \<open>
  \<^verbatim>\<open>sniff/src/tcp.c\<close>: the TCP header of RFC 793 (with the NS bit of RFC 3540), one extractor
  per field, \<^verbatim>\<open>extractTcpHeader\<close> and \<^verbatim>\<open>printTcpHeader\<close>.
\<close>

record tcpHeaderFlags =
  ns :: bool
  cwr :: bool
  ece :: bool
  urg :: bool
  ack :: bool
  psh :: bool
  rst :: bool
  sync :: bool
  fin :: bool

datatype tcp_method = PrintTcpHeader

record tcpHeader =
  tcp_srcPort :: u32
  tcp_dstPort :: u32
  seqNumber :: u32
  ackNumber :: u32
  offset :: u32
  reserved :: u32
  flags :: tcpHeaderFlags
  windown :: u32
  checksum :: u32
  urgentPointer :: u32
  tcp_printTcpHeader :: "tcp_method option"

section \<open>The extractors\<close>

definition extractSrcPort :: "cptr \<Rightarrow> fault + u32" where
  "extractSrcPort p = conv2BytesToInt p"

definition extractDstPort :: "cptr \<Rightarrow> fault + u32" where
  "extractDstPort p = conv2BytesToInt (padd p 2)"

definition extractSequenceNumber :: "cptr \<Rightarrow> fault + u32" where
  "extractSequenceNumber p = conv4BytesToInt (padd p 4)"

definition extractAckNumber :: "cptr \<Rightarrow> fault + u32" where
  "extractAckNumber p = conv4BytesToInt (padd p 8)"

definition extractOffset :: "cptr \<Rightarrow> fault + u32" where
  "extractOffset p = rbind (rd p 12) (\<lambda>b. Inr (drop_bit 4 (ucast b)))"

definition extractReserved :: "cptr \<Rightarrow> fault + u32" where
  "extractReserved p = rbind (rd p 12) (\<lambda>b. Inr (drop_bit 1 (ucast b) AND 0x07))"

definition extractFlagNs :: "cptr \<Rightarrow> fault + bool" where
  "extractFlagNs p = rbind (rd p 12) (\<lambda>b. Inr (ucast b AND 0x01 \<noteq> (0 :: u32)))"

definition extractFlagCwr :: "cptr \<Rightarrow> fault + bool" where
  "extractFlagCwr p = rbind (rd p 13) (\<lambda>b. Inr (ucast b AND 0x80 \<noteq> (0 :: u32)))"

definition extractFlagEce :: "cptr \<Rightarrow> fault + bool" where
  "extractFlagEce p = rbind (rd p 13) (\<lambda>b. Inr (ucast b AND 0x40 \<noteq> (0 :: u32)))"

definition extractFlagUrg :: "cptr \<Rightarrow> fault + bool" where
  "extractFlagUrg p = rbind (rd p 13) (\<lambda>b. Inr (ucast b AND 0x20 \<noteq> (0 :: u32)))"

definition extractFlagAck :: "cptr \<Rightarrow> fault + bool" where
  "extractFlagAck p = rbind (rd p 13) (\<lambda>b. Inr (ucast b AND 0x10 \<noteq> (0 :: u32)))"

definition extractFlagPsh :: "cptr \<Rightarrow> fault + bool" where
  "extractFlagPsh p = rbind (rd p 13) (\<lambda>b. Inr (ucast b AND 0x08 \<noteq> (0 :: u32)))"

definition extractFlagRst :: "cptr \<Rightarrow> fault + bool" where
  "extractFlagRst p = rbind (rd p 13) (\<lambda>b. Inr (ucast b AND 0x04 \<noteq> (0 :: u32)))"

definition extractFlagSync :: "cptr \<Rightarrow> fault + bool" where
  "extractFlagSync p = rbind (rd p 13) (\<lambda>b. Inr (ucast b AND 0x02 \<noteq> (0 :: u32)))"

definition extractFlagFin :: "cptr \<Rightarrow> fault + bool" where
  "extractFlagFin p = rbind (rd p 13) (\<lambda>b. Inr (ucast b AND 0x01 \<noteq> (0 :: u32)))"

definition extractWindowSize :: "cptr \<Rightarrow> fault + u32" where
  "extractWindowSize p = conv2BytesToInt (padd p 14)"

definition extractChecksum :: "cptr \<Rightarrow> fault + u32" where
  "extractChecksum p = conv2BytesToInt (padd p 16)"

definition extractUrgentPointer :: "cptr \<Rightarrow> fault + u32" where
  "extractUrgentPointer p = conv2BytesToInt (padd p 18)"

lemmas extractor_defs = extractSrcPort_def extractDstPort_def extractSequenceNumber_def
  extractAckNumber_def extractOffset_def extractReserved_def extractFlagNs_def extractFlagCwr_def
  extractFlagEce_def extractFlagUrg_def extractFlagAck_def extractFlagPsh_def extractFlagRst_def
  extractFlagSync_def extractFlagFin_def extractWindowSize_def extractChecksum_def
  extractUrgentPointer_def

text \<open>The assignments to the fields of the new header, in the order they are made.\<close>

definition tcp_fields :: "cptr \<Rightarrow> fault + tcpHeader" where
  "tcp_fields p =
     rbind (extractSrcPort p) (\<lambda>sp.
     rbind (extractDstPort p) (\<lambda>dp.
     rbind (extractSequenceNumber p) (\<lambda>sq.
     rbind (extractAckNumber p) (\<lambda>an.
     rbind (extractOffset p) (\<lambda>off.
     rbind (extractReserved p) (\<lambda>res.
     rbind (extractFlagNs p) (\<lambda>f_ns.
     rbind (extractFlagCwr p) (\<lambda>f_cwr.
     rbind (extractFlagEce p) (\<lambda>f_ece.
     rbind (extractFlagUrg p) (\<lambda>f_urg.
     rbind (extractFlagAck p) (\<lambda>f_ack.
     rbind (extractFlagPsh p) (\<lambda>f_psh.
     rbind (extractFlagRst p) (\<lambda>f_rst.
     rbind (extractFlagSync p) (\<lambda>f_sync.
     rbind (extractFlagFin p) (\<lambda>f_fin.
     rbind (extractWindowSize p) (\<lambda>win.
     rbind (extractChecksum p) (\<lambda>sum.
     rbind (extractUrgentPointer p) (\<lambda>up.
     Inr \<lparr>tcp_srcPort = sp, tcp_dstPort = dp, seqNumber = sq, ackNumber = an, offset = off,
          reserved = res,
          flags = \<lparr>ns = f_ns, cwr = f_cwr, ece = f_ece, urg = f_urg, ack = f_ack, psh = f_psh,
                   rst = f_rst, sync = f_sync, fin = f_fin\<rparr>,
          windown = win, checksum = sum, urgentPointer = up,
          tcp_printTcpHeader = Some PrintTcpHeader\<rparr>))))))))))))))))))"

definition extractTcpHeader :: "cptr \<Rightarrow> ('w world_scheme, tcpHeader) prog" where
  "extractTcpHeader p = pbind malloc_unchecked (\<lambda>_. lift (tcp_fields p))"

section \<open>Printing\<close>

definition row :: "string \<Rightarrow> string \<Rightarrow> nat \<Rightarrow> string" where
  "row sep name v = rjust 20 name @ sep @ show_dec v @ nl"

definition printTcpHeader :: "tcpHeader \<Rightarrow> ('w world_scheme, unit) prog" where
  "printTcpHeader self =
     pbind (puts (''---- TCP HEADER ----'' @ nl @ nl)) (\<lambda>_.
     pbind (puts (row '' | '' ''Source Port'' (unat (tcp_srcPort self)))) (\<lambda>_.
     pbind (puts (row '' | '' ''Destination Port'' (unat (tcp_dstPort self)))) (\<lambda>_.
     pbind (puts (row '' | '' ''Sequence Number'' (unat (seqNumber self)))) (\<lambda>_.
     pbind (puts (row '' | '' ''Ack Number'' (unat (ackNumber self)))) (\<lambda>_.
     pbind (puts (row '' | '' ''Offset'' (unat (offset self)))) (\<lambda>_.
     pbind (puts (row '' | '' ''Reserved'' (unat (reserved self)))) (\<lambda>_.
     pbind (puts (row '' | '' ''Flags'' 9)) (\<lambda>_.
     pbind (puts (row '' : '' ''ns'' (of_bool (ns (flags self))))) (\<lambda>_.
     pbind (puts (row '' : '' ''cwr'' (of_bool (cwr (flags self))))) (\<lambda>_.
     pbind (puts (row '' : '' ''ece'' (of_bool (ece (flags self))))) (\<lambda>_.
     pbind (puts (row '' : '' ''urg'' (of_bool (urg (flags self))))) (\<lambda>_.
     pbind (puts (row '' : '' ''ack'' (of_bool (ack (flags self))))) (\<lambda>_.
     pbind (puts (row '' : '' ''psh'' (of_bool (psh (flags self))))) (\<lambda>_.
     pbind (puts (row '' : '' ''rst'' (of_bool (rst (flags self))))) (\<lambda>_.
     pbind (puts (row '' : '' ''sync'' (of_bool (sync (flags self))))) (\<lambda>_.
     pbind (puts (row '' : '' ''fin'' (of_bool (fin (flags self))))) (\<lambda>_.
     pbind (puts (row '' | '' ''Window size'' (unat (windown self)))) (\<lambda>_.
     pbind (puts (row '' | '' ''Check sum'' (unat (checksum self)))) (\<lambda>_.
     puts (row '' | '' ''Urgent pointer'' (unat (urgentPointer self))))))))))))))))))))))"

text \<open>The call \<^verbatim>\<open>h->printTcpHeader(h)\<close> through the function pointer.\<close>

definition call_printTcpHeader :: "tcpHeader \<Rightarrow> ('w world_scheme, unit) prog" where
  "call_printTcpHeader h =
     (case tcp_printTcpHeader h of
        None \<Rightarrow> stop Uninit
      | Some PrintTcpHeader \<Rightarrow> printTcpHeader h)"

text \<open>The text of a header, as one string.\<close>

definition tcp_text :: "tcpHeader \<Rightarrow> string" where
  "tcp_text h =
     ''---- TCP HEADER ----'' @ nl @ nl @
     concat (map (\<lambda>(name, v). row '' | '' name v)
       [(''Source Port'', unat (tcp_srcPort h)), (''Destination Port'', unat (tcp_dstPort h)),
        (''Sequence Number'', unat (seqNumber h)), (''Ack Number'', unat (ackNumber h)),
        (''Offset'', unat (offset h)), (''Reserved'', unat (reserved h)), (''Flags'', 9)]) @
     concat (map (\<lambda>(name, b). row '' : '' name (of_bool b))
       [(''ns'', ns (flags h)), (''cwr'', cwr (flags h)), (''ece'', ece (flags h)),
        (''urg'', urg (flags h)), (''ack'', ack (flags h)), (''psh'', psh (flags h)),
        (''rst'', rst (flags h)), (''sync'', sync (flags h)), (''fin'', fin (flags h))]) @
     concat (map (\<lambda>(name, v). row '' | '' name v)
       [(''Window size'', unat (windown h)), (''Check sum'', unat (checksum h)),
        (''Urgent pointer'', unat (urgentPointer h))])"

lemma printTcpHeader_run: "printTcpHeader h w = Inr ((), grown 0 (tcp_text h) w)"
  by (simp add: printTcpHeader_def tcp_text_def)

section \<open>The header against its layout\<close>

definition tcp_layout :: "nat list" where
  "tcp_layout = [16, 16, 32, 32, 4, 3, 1, 1, 1, 1, 1, 1, 1, 1, 1, 16, 16, 16]"

definition tcp_vals :: "tcpHeader \<Rightarrow> nat list" where
  "tcp_vals h =
     [unat (tcp_srcPort h), unat (tcp_dstPort h), unat (seqNumber h), unat (ackNumber h),
      unat (offset h), unat (reserved h),
      of_bool (ns (flags h)), of_bool (cwr (flags h)), of_bool (ece (flags h)),
      of_bool (urg (flags h)), of_bool (ack (flags h)), of_bool (psh (flags h)),
      of_bool (rst (flags h)), of_bool (sync (flags h)), of_bool (fin (flags h)),
      unat (windown h), unat (checksum h), unat (urgentPointer h)]"

lemma tcp_fields_long:
  "20 \<le> length bs \<Longrightarrow>
   \<exists>h. tcp_fields bs = Inr h \<and> tcp_vals h = decode_fields tcp_layout (take 20 bs)"
  by (simp add: tcp_fields_def extractor_defs run_simps tcp_vals_def tcp_layout_def
      decode_fields_def take_nths bit_eval)

lemma tcp_fields_short: "length bs < 20 \<Longrightarrow> tcp_fields bs = Inl OutOfBounds"
  by (simp add: tcp_fields_def extractor_defs run_simps rd_def rbind_Inl_iff)

lemma tcp_fields_method: "tcp_fields p = Inr h \<Longrightarrow> tcp_printTcpHeader h = Some PrintTcpHeader"
  by (auto simp: tcp_fields_def rbind_Inr_iff)

interpretation tcp: header_decoder tcp_fields tcp_vals tcp_layout 20
proof
  show "sum_list tcp_layout = 8 * 20" by (simp add: tcp_layout_def)
  show "\<exists>h. tcp_fields bs = Inr h \<and> tcp_vals h = decode_fields tcp_layout (take 20 bs)"
    if "20 \<le> length bs" for bs
    using that by (rule tcp_fields_long)
  show "tcp_fields bs = Inl OutOfBounds" if "length bs < 20" for bs
    using that by (rule tcp_fields_short)
  show "h = k" if "tcp_fields p = Inr h" "tcp_fields q = Inr k" "tcp_vals h = tcp_vals k" for p q h k
    using that tcp_fields_method [of p h] tcp_fields_method [of q k]
    by (cases h; cases "flags h"; cases k; cases "flags k") (simp add: tcp_vals_def unat_inj_iff of_bool_eq_iff)
qed

section \<open>Properties\<close>

lemma extractTcpHeader_run:
  "allocs_ok 1 w \<Longrightarrow> extractTcpHeader p w =
     (case tcp_fields p of Inl e \<Rightarrow> Inl e | Inr h \<Rightarrow> Inr (h, grown 1 [] w))"
  by (simp add: extractTcpHeader_def pbind_step malloc_unchecked_run lift_def split: sum.split)

lemma call_printTcpHeader_run:
  "tcp_fields p = Inr h \<Longrightarrow> call_printTcpHeader h w = Inr ((), grown 0 (tcp_text h) w)"
  by (simp add: call_printTcpHeader_def tcp_fields_method printTcpHeader_run)

text \<open>
  C14: \<^verbatim>\<open>extractTcpHeader\<close> inverts the encoding of RFC 793 (with the NS bit of RFC 3540): when every
  value fits its field, the header encoded from the values, followed by anything, is decoded to those
  values, flag by flag.
\<close>

theorem extractTcpHeader_encode:
  assumes "allocs_ok 1 w"
    and "fits [16, 16, 32, 32, 4, 3, 1, 1, 1, 1, 1, 1, 1, 1, 1, 16, 16, 16] vs"
  shows "\<exists>h. extractTcpHeader
       (encode_fields [16, 16, 32, 32, 4, 3, 1, 1, 1, 1, 1, 1, 1, 1, 1, 16, 16, 16] vs @ rest) w
         = Inr (h, grown 1 [] w) \<and>
     [unat (tcp_srcPort h), unat (tcp_dstPort h), unat (seqNumber h), unat (ackNumber h),
      unat (offset h), unat (reserved h),
      of_bool (ns (flags h)), of_bool (cwr (flags h)), of_bool (ece (flags h)),
      of_bool (urg (flags h)), of_bool (ack (flags h)), of_bool (psh (flags h)),
      of_bool (rst (flags h)), of_bool (sync (flags h)), of_bool (fin (flags h)),
      unat (windown h), unat (checksum h), unat (urgentPointer h)] = vs"
  using tcp.dec_encode [of vs rest] assms extractTcpHeader_run [OF assms(1)]
  unfolding tcp_layout_def tcp_vals_def by fastforce

theorem extractTcpHeader_encode_witness:
  "\<exists>h. extractTcpHeader
       (encode_fields [16, 16, 32, 32, 4, 3, 1, 1, 1, 1, 1, 1, 1, 1, 1, 16, 16, 16]
          [443, 50000, 4000000000, 7, 5, 0, 0, 0, 0, 0, 1, 0, 0, 1, 0, 65535, 9, 0] @ [1]) start_world
         = Inr (h, grown 1 [] start_world) \<and>
     [unat (tcp_srcPort h), unat (tcp_dstPort h), unat (seqNumber h), unat (ackNumber h),
      unat (offset h), unat (reserved h),
      of_bool (ns (flags h)), of_bool (cwr (flags h)), of_bool (ece (flags h)),
      of_bool (urg (flags h)), of_bool (ack (flags h)), of_bool (psh (flags h)),
      of_bool (rst (flags h)), of_bool (sync (flags h)), of_bool (fin (flags h)),
      unat (windown h), unat (checksum h), unat (urgentPointer h)]
     = [443, 50000, 4000000000, 7, 5, 0, 0, 0, 0, 0, 1, 0, 0, 1, 0, 65535, 9, 0]"
  by (rule extractTcpHeader_encode) (simp_all add: ample_allocs_ok)

text \<open>
  C24: extracting a TCP header and printing it through its method succeeds exactly when the 20 bytes
  of the fixed header are there: a shorter buffer is an out-of-bounds read, and nothing else can go
  wrong. What is extracted encodes back to those 20 bytes.
\<close>

theorem extractTcpHeader_print:
  assumes "allocs_ok 1 w"
  shows "if 20 \<le> length p
    then \<exists>h. pbind (extractTcpHeader p) call_printTcpHeader w = Inr ((), grown 1 (tcp_text h) w) \<and>
      tcp_fields p = Inr h \<and> encode_fields tcp_layout (tcp_vals h) = take 20 p
    else pbind (extractTcpHeader p) call_printTcpHeader w = Inl OutOfBounds"
proof (cases "tcp_fields p")
  case (Inl f)
  then have "\<not> 20 \<le> length p" using tcp.dec_succeeds_iff [of p] by auto
  then show ?thesis using assms by (simp add: pbind_fault extractTcpHeader_run tcp.dec_short)
next
  case (Inr h)
  then have "20 \<le> length p" using tcp.dec_vals by blast
  with Inr assms tcp.encode_dec [OF Inr] show ?thesis
    by (simp add: pbind_def extractTcpHeader_run call_printTcpHeader_run)
qed

theorem extractTcpHeader_print_witness:
  "pbind (extractTcpHeader (replicate 19 0)) call_printTcpHeader start_world = Inl OutOfBounds"
  using extractTcpHeader_print [of start_world "replicate 19 0"] by (simp add: ample_allocs_ok)

end
