(* ===== verification/Dns_Header.thy ===== *)
theory Dns_Header
  imports Utils
begin

text \<open>
  \<^verbatim>\<open>sniff/src/dns.c\<close>, first half: the header of a DNS message (RFC 1035, section 4.1.1), one
  extractor per field, \<^verbatim>\<open>extractDnsHeader\<close> and \<^verbatim>\<open>printDnsHeader\<close>.
\<close>

datatype dns_method = PrintDnsHeader

record dnsHeader =
  dns_id :: u16
  qr :: u16
  opcode :: u16
  aa :: u16
  tc :: u16
  rd_flag :: u16
  ra :: u16
  dns_z :: u16
  rcode :: u16
  qdcount :: u16
  ancount :: u16
  nscount :: u16
  arcount :: u16
  dns_printDnsHeader :: "dns_method option"

section \<open>The extractors\<close>

definition extractDnsHeaderID :: "cptr \<Rightarrow> fault + u16" where
  "extractDnsHeaderID p = rbind (conv2BytesToInt p) (\<lambda>v. Inr (ucast v))"

definition extractDnsHeaderQR :: "cptr \<Rightarrow> fault + u16" where
  "extractDnsHeaderQR p = rbind (rd p 2) (\<lambda>b. Inr (ucast (drop_bit 7 (ucast b :: u32))))"

definition extractDnsHeaderOpCode :: "cptr \<Rightarrow> fault + u16" where
  "extractDnsHeaderOpCode p = rbind (rd p 2) (\<lambda>b. Inr (ucast (drop_bit 3 (ucast b AND 0x78 :: u32))))"

definition extractDnsHeaderAA :: "cptr \<Rightarrow> fault + u16" where
  "extractDnsHeaderAA p = rbind (rd p 2) (\<lambda>b. Inr (ucast (drop_bit 2 (ucast b AND 0x04 :: u32))))"

definition extractDnsHeaderTC :: "cptr \<Rightarrow> fault + u16" where
  "extractDnsHeaderTC p = rbind (rd p 2) (\<lambda>b. Inr (ucast (drop_bit 1 (ucast b AND 0x02 :: u32))))"

definition extractDnsHeaderRD :: "cptr \<Rightarrow> fault + u16" where
  "extractDnsHeaderRD p = rbind (rd p 2) (\<lambda>b. Inr (ucast (ucast b AND 0x01 :: u32)))"

definition extractDnsHeaderRA :: "cptr \<Rightarrow> fault + u16" where
  "extractDnsHeaderRA p = rbind (rd p 3) (\<lambda>b. Inr (ucast (drop_bit 7 (ucast b :: u32))))"

definition extractDnsHeaderZ :: "cptr \<Rightarrow> fault + u16" where
  "extractDnsHeaderZ p = rbind (rd p 3) (\<lambda>b. Inr (ucast (drop_bit 4 (ucast b AND 0x70 :: u32))))"

definition extractDnsHeaderRCode :: "cptr \<Rightarrow> fault + u16" where
  "extractDnsHeaderRCode p = rbind (rd p 3) (\<lambda>b. Inr (ucast (ucast b AND 0x0F :: u32)))"

definition extractDnsHeaderQDCount :: "cptr \<Rightarrow> fault + u16" where
  "extractDnsHeaderQDCount p = rbind (conv2BytesToInt (padd p 4)) (\<lambda>v. Inr (ucast v))"

definition extractDnsHeaderANCount :: "cptr \<Rightarrow> fault + u16" where
  "extractDnsHeaderANCount p = rbind (conv2BytesToInt (padd p 6)) (\<lambda>v. Inr (ucast v))"

definition extractDnsHeaderNSCount :: "cptr \<Rightarrow> fault + u16" where
  "extractDnsHeaderNSCount p = rbind (conv2BytesToInt (padd p 8)) (\<lambda>v. Inr (ucast v))"

definition extractDnsHeaderARCount :: "cptr \<Rightarrow> fault + u16" where
  "extractDnsHeaderARCount p = rbind (conv2BytesToInt (padd p 10)) (\<lambda>v. Inr (ucast v))"

lemmas dns_extractor_defs = extractDnsHeaderID_def extractDnsHeaderQR_def extractDnsHeaderOpCode_def
  extractDnsHeaderAA_def extractDnsHeaderTC_def extractDnsHeaderRD_def extractDnsHeaderRA_def
  extractDnsHeaderZ_def extractDnsHeaderRCode_def extractDnsHeaderQDCount_def
  extractDnsHeaderANCount_def extractDnsHeaderNSCount_def extractDnsHeaderARCount_def

definition dns_fields :: "cptr \<Rightarrow> fault + dnsHeader" where
  "dns_fields p =
     rbind (extractDnsHeaderID p) (\<lambda>h_id.
     rbind (extractDnsHeaderQR p) (\<lambda>h_qr.
     rbind (extractDnsHeaderOpCode p) (\<lambda>h_opcode.
     rbind (extractDnsHeaderAA p) (\<lambda>h_aa.
     rbind (extractDnsHeaderTC p) (\<lambda>h_tc.
     rbind (extractDnsHeaderRD p) (\<lambda>h_rd.
     rbind (extractDnsHeaderRA p) (\<lambda>h_ra.
     rbind (extractDnsHeaderZ p) (\<lambda>h_z.
     rbind (extractDnsHeaderRCode p) (\<lambda>h_rcode.
     rbind (extractDnsHeaderQDCount p) (\<lambda>h_qd.
     rbind (extractDnsHeaderANCount p) (\<lambda>h_an.
     rbind (extractDnsHeaderNSCount p) (\<lambda>h_ns.
     rbind (extractDnsHeaderARCount p) (\<lambda>h_ar.
     Inr \<lparr>dns_id = h_id, qr = h_qr, opcode = h_opcode, aa = h_aa, tc = h_tc, rd_flag = h_rd,
          ra = h_ra, dns_z = h_z, rcode = h_rcode, qdcount = h_qd, ancount = h_an, nscount = h_ns,
          arcount = h_ar, dns_printDnsHeader = Some PrintDnsHeader\<rparr>)))))))))))))"

definition extractDnsHeader :: "cptr \<Rightarrow> ('w world_scheme, dnsHeader) prog" where
  "extractDnsHeader p = pbind malloc_unchecked (\<lambda>_. lift (dns_fields p))"

section \<open>Printing\<close>

definition printDnsHeader :: "dnsHeader \<Rightarrow> ('w world_scheme, unit) prog" where
  "printDnsHeader self =
     pbind (puts (concat (map (ljust 10)
       [''id'', ''qr'', ''opcode'', ''aa'', ''tc'', ''rd'', ''ra'', ''z'', ''rcode'', ''qdcount'',
        ''ancount'', ''nscount'', ''arcount'']) @ nl)) (\<lambda>_.
     puts (ljust 10 (show_hex (unat (dns_id self))) @
       concat (map (\<lambda>v. ljust 10 (show_dec (unat v)))
         [qr self, opcode self, aa self, tc self, rd_flag self, ra self, dns_z self, rcode self,
          qdcount self, ancount self, nscount self, arcount self]) @ nl))"

definition call_printDnsHeader :: "dnsHeader \<Rightarrow> ('w world_scheme, unit) prog" where
  "call_printDnsHeader h =
     (case dns_printDnsHeader h of
        None \<Rightarrow> stop Uninit
      | Some PrintDnsHeader \<Rightarrow> printDnsHeader h)"

definition dns_text :: "dnsHeader \<Rightarrow> string" where
  "dns_text h =
     concat (map (ljust 10)
       [''id'', ''qr'', ''opcode'', ''aa'', ''tc'', ''rd'', ''ra'', ''z'', ''rcode'', ''qdcount'',
        ''ancount'', ''nscount'', ''arcount'']) @ nl @
     ljust 10 (show_hex (unat (dns_id h))) @
     concat (map (\<lambda>v. ljust 10 (show_dec (unat v)))
       [qr h, opcode h, aa h, tc h, rd_flag h, ra h, dns_z h, rcode h, qdcount h, ancount h,
        nscount h, arcount h]) @ nl"

lemma printDnsHeader_run: "printDnsHeader h w = Inr ((), grown 0 (dns_text h) w)"
  by (simp add: printDnsHeader_def dns_text_def)

section \<open>The header against its layout\<close>

definition dns_layout :: "nat list" where
  "dns_layout = [16, 1, 4, 1, 1, 1, 1, 3, 4, 16, 16, 16, 16]"

definition dns_vals :: "dnsHeader \<Rightarrow> nat list" where
  "dns_vals h = map unat
     [dns_id h, qr h, opcode h, aa h, tc h, rd_flag h, ra h, dns_z h, rcode h, qdcount h,
      ancount h, nscount h, arcount h]"

lemma dns_fields_long:
  "12 \<le> length bs \<Longrightarrow>
   \<exists>h. dns_fields bs = Inr h \<and> dns_vals h = decode_fields dns_layout (take 12 bs)"
  by (simp add: dns_fields_def dns_extractor_defs run_simps dns_vals_def dns_layout_def
      decode_fields_def take_nths bit_eval)

lemma dns_fields_short: "length bs < 12 \<Longrightarrow> dns_fields bs = Inl OutOfBounds"
  by (simp add: dns_fields_def dns_extractor_defs run_simps rd_def rbind_Inl_iff)

lemma dns_fields_method: "dns_fields p = Inr h \<Longrightarrow> dns_printDnsHeader h = Some PrintDnsHeader"
  by (auto simp: dns_fields_def rbind_Inr_iff)

interpretation dns: header_decoder dns_fields dns_vals dns_layout 12
proof
  show "sum_list dns_layout = 8 * 12" by (simp add: dns_layout_def)
  show "\<exists>h. dns_fields bs = Inr h \<and> dns_vals h = decode_fields dns_layout (take 12 bs)"
    if "12 \<le> length bs" for bs
    using that by (rule dns_fields_long)
  show "dns_fields bs = Inl OutOfBounds" if "length bs < 12" for bs
    using that by (rule dns_fields_short)
  show "h = k" if "dns_fields p = Inr h" "dns_fields q = Inr k" "dns_vals h = dns_vals k" for p q h k
    using that dns_fields_method [of p h] dns_fields_method [of q k]
    by (cases h; cases k) (simp add: dns_vals_def unat_inj_iff)
qed

section \<open>Properties\<close>

lemma extractDnsHeader_run:
  "allocs_ok 1 w \<Longrightarrow> extractDnsHeader p w =
     (case dns_fields p of Inl e \<Rightarrow> Inl e | Inr h \<Rightarrow> Inr (h, grown 1 [] w))"
  by (simp add: extractDnsHeader_def pbind_step malloc_unchecked_run lift_def split: sum.split)

lemma call_printDnsHeader_run:
  "dns_fields p = Inr h \<Longrightarrow> call_printDnsHeader h w = Inr ((), grown 0 (dns_text h) w)"
  by (simp add: call_printDnsHeader_def dns_fields_method printDnsHeader_run)

text \<open>
  C18: \<^verbatim>\<open>extractDnsHeader\<close> reads exactly the fields of RFC 1035, section 4.1.1: on a buffer of at
  least 12 bytes its values are the 13 fields of the layout, and they encode back to the 12 bytes; a
  shorter buffer is an out-of-bounds read.
\<close>

theorem extractDnsHeader_layout:
  assumes "allocs_ok 1 w"
  shows "if 12 \<le> length p
    then \<exists>h. extractDnsHeader p w = Inr (h, grown 1 [] w) \<and>
      map unat [dns_id h, qr h, opcode h, aa h, tc h, rd_flag h, ra h, dns_z h, rcode h, qdcount h,
        ancount h, nscount h, arcount h]
      = decode_fields [16, 1, 4, 1, 1, 1, 1, 3, 4, 16, 16, 16, 16] (take 12 p) \<and>
      encode_fields dns_layout (dns_vals h) = take 12 p
    else extractDnsHeader p w = Inl OutOfBounds"
proof (cases "dns_fields p")
  case (Inl f)
  then have "\<not> 12 \<le> length p" using dns.dec_succeeds_iff [of p] by auto
  then show ?thesis using assms by (simp add: extractDnsHeader_run dns.dec_short)
next
  case (Inr h)
  with dns.dec_vals [OF Inr] dns.encode_dec [OF Inr] assms show ?thesis
    by (simp add: extractDnsHeader_run dns_vals_def dns_layout_def)
qed

theorem extractDnsHeader_layout_witness:
  "\<exists>h. extractDnsHeader [0xAB, 0xCD, 0x81, 0x80, 0, 1, 0, 2, 0, 0, 0, 0] start_world
       = Inr (h, grown 1 [] start_world) \<and>
     encode_fields dns_layout (dns_vals h) = [0xAB, 0xCD, 0x81, 0x80, 0, 1, 0, 2, 0, 0, 0, 0]"
  using extractDnsHeader_layout [of start_world "[0xAB, 0xCD, 0x81, 0x80, 0, 1, 0, 2, 0, 0, 0, 0]"]
  by (auto simp: ample_allocs_ok)

end
