(* ===== verification/Dns_Question.thy ===== *)
theory Dns_Question
  imports Utils
begin

text \<open>
  \<^verbatim>\<open>sniff/src/dns.c\<close>, second half: the question of a DNS message (RFC 1035, sections 3.1 and
  4.1.2). \<^verbatim>\<open>extractQueryName\<close> turns the length-prefixed labels into a dotted string in a buffer it
  grows with \<^verbatim>\<open>realloc\<close>; \<^verbatim>\<open>extractDnsQuestion\<close> derives the position of the type and the class
  from the length of that string.
\<close>

section \<open>The growing buffer\<close>

text \<open>
  The block \<open>queryName\<close> points to is \<open>None\<close> for the null pointer; a byte of it is \<open>None\<close> until it
  is written. The two lengths are C integers that never get negative.
\<close>

record qname_buf =
  queryName :: "byte option list option"
  queryNameLen :: nat
  queryNameCap :: nat

text \<open>An \<^verbatim>\<open>int\<close> that an operation has set to \<open>n\<close>.\<close>

definition fit_int :: "nat \<Rightarrow> fault + nat" where
  "fit_int n = (if n < 2147483648 then Inr n else Inl SignedOverflow)"

text \<open>\<^verbatim>\<open>queryName = realloc(queryName, queryNameCap)\<close>\<close>

definition realloc_qname :: "qname_buf \<Rightarrow> ('w world_scheme, qname_buf) prog" where
  "realloc_qname b w =
     (let old = (case queryName b of None \<Rightarrow> [] | Some d \<Rightarrow> d);
          n = queryNameCap b in
      if alloc_ok w (n_alloc w)
      then Inr (b\<lparr>queryName := Some (take n old @ replicate (n - length old) None)\<rparr>,
                w\<lparr>n_alloc := n_alloc w + 1,
                  live := live w + (if queryName b = None then 1 else 0)\<rparr>)
      else Inr (b\<lparr>queryName := None\<rparr>, w\<lparr>n_alloc := n_alloc w + 1\<rparr>))"

text \<open>\<^verbatim>\<open>queryName[i] = c\<close>\<close>

definition write_qname :: "qname_buf \<Rightarrow> nat \<Rightarrow> byte \<Rightarrow> fault + qname_buf" where
  "write_qname b i c =
     (case queryName b of
        None \<Rightarrow> Inl NullPtr
      | Some d \<Rightarrow> if i < length d then Inr (b\<lparr>queryName := Some (d[i := Some c])\<rparr>) else Inl BadWrite)"

text \<open>\<^verbatim>\<open>queryName[queryNameLen++] = c\<close>\<close>

definition store_qname :: "qname_buf \<Rightarrow> byte \<Rightarrow> fault + qname_buf" where
  "store_qname b c =
     rbind (fit_int (queryNameLen b + 1)) (\<lambda>n.
     rbind (write_qname b (queryNameLen b) c) (\<lambda>b. Inr (b\<lparr>queryNameLen := n\<rparr>)))"

text \<open>The body of the \<^verbatim>\<open>for\<close> loop: one octet of a label.\<close>

definition push_octet :: "qname_buf \<Rightarrow> byte \<Rightarrow> ('w world_scheme, qname_buf) prog" where
  "push_octet b c =
     pbind (if queryNameCap b \<le> queryNameLen b
            then pbind (if queryNameCap b = 0 then ret 1 else lift (fit_int (queryNameCap b * 2)))
                   (\<lambda>n. realloc_qname (b\<lparr>queryNameCap := n\<rparr>))
            else ret b) (\<lambda>b.
     lift (store_qname b c))"

text \<open>The dot between two labels: the same, without the test for a capacity of 0.\<close>

definition push_dot :: "qname_buf \<Rightarrow> byte \<Rightarrow> ('w world_scheme, qname_buf) prog" where
  "push_dot b c =
     pbind (if queryNameCap b \<le> queryNameLen b
            then pbind (lift (fit_int (queryNameCap b * 2)))
                   (\<lambda>n. realloc_qname (b\<lparr>queryNameCap := n\<rparr>))
            else ret b) (\<lambda>b.
     lift (store_qname b c))"

text \<open>The terminator.\<close>

definition terminate_qname :: "qname_buf \<Rightarrow> ('w world_scheme, qname_buf) prog" where
  "terminate_qname b =
     pbind (if queryNameCap b \<le> queryNameLen b
            then pbind (lift (fit_int (queryNameCap b + 1)))
                   (\<lambda>n. realloc_qname (b\<lparr>queryNameCap := n\<rparr>))
            else ret b) (\<lambda>b.
     lift (write_qname b (queryNameLen b) 0))"

section \<open>extractQueryName\<close>

definition push_at :: "cptr \<Rightarrow> qname_buf \<Rightarrow> nat \<Rightarrow> ('w world_scheme, qname_buf) prog" where
  "push_at curChar b i = pbind (lift (rd curChar i)) (push_octet b)"

function qname_loop :: "cptr \<Rightarrow> qname_buf \<Rightarrow> ('w world_scheme, qname_buf) prog" where
  "qname_loop curChar b =
     (case rd curChar 0 of
        Inl e \<Rightarrow> stop e
      | Inr octetCount \<Rightarrow>
          if octetCount = 0 then ret b
          else
            pbind (pfold (push_at curChar) [1..<unat octetCount + 1] b) (\<lambda>b.
            let curChar' = padd curChar (unat octetCount + 1) in
            pbind (lift (rd curChar' 0)) (\<lambda>c.
            pbind (if c \<noteq> 0 then push_dot b 46 else ret b) (\<lambda>b.
            qname_loop curChar' b))))"
  by pat_completeness auto
termination
  by (relation "measure (\<lambda>(curChar, b). length curChar)") (auto simp: rd_Inr_iff)

declare qname_loop.simps [simp del]

definition extractQueryName :: "cptr \<Rightarrow> ('w world_scheme, byte option list) prog" where
  "extractQueryName questionPtr =
     pbind (qname_loop questionPtr \<lparr>queryName = None, queryNameLen = 0, queryNameCap = 0\<rparr>) (\<lambda>b.
     pbind (terminate_qname b) (\<lambda>b.
     ret (case queryName b of None \<Rightarrow> [] | Some d \<Rightarrow> d)))"

text \<open>\<^verbatim>\<open>strlen\<close> of a block and the bytes \<^verbatim>\<open>%s\<close> prints of it.\<close>

fun cstring :: "byte option list \<Rightarrow> fault + byte list" where
  "cstring [] = Inl OutOfBounds"
| "cstring (None # d) = Inl Uninit"
| "cstring (Some c # d) = (if c = 0 then Inr [] else rbind (cstring d) (\<lambda>s. Inr (c # s)))"

definition strlen :: "byte option list \<Rightarrow> fault + nat" where
  "strlen d = rbind (cstring d) (\<lambda>s. Inr (length s))"

section \<open>extractDnsQuestion\<close>

datatype question_method = PrintDnsQuestion

record dnsQuestion =
  qname :: "byte option list"
  qnamelen :: u16
  qtype :: u16
  qclass :: u16
  q_printDnsQuestion :: "question_method option"

definition extractQueryType :: "cptr \<Rightarrow> nat \<Rightarrow> fault + u16" where
  "extractQueryType p dnsQueryNameLen =
     rbind (conv2BytesToInt (padd p dnsQueryNameLen)) (\<lambda>v. Inr (ucast v))"

definition extractQueryClass :: "cptr \<Rightarrow> nat \<Rightarrow> fault + u16" where
  "extractQueryClass p dnsQueryNameLen =
     rbind (conv2BytesToInt (padd p (dnsQueryNameLen + 2))) (\<lambda>v. Inr (ucast v))"

definition extractDnsQuestion :: "cptr \<Rightarrow> ('w world_scheme, dnsQuestion) prog" where
  "extractDnsQuestion p =
     pbind malloc_unchecked (\<lambda>_.
     pbind (extractQueryName p) (\<lambda>name.
     pbind (lift (strlen name)) (\<lambda>n.
     let len = of_nat (n + 2) :: u16 in
     pbind (lift (extractQueryType p (unat len))) (\<lambda>t.
     pbind (lift (extractQueryClass p (unat len))) (\<lambda>c.
     ret \<lparr>qname = name, qnamelen = len, qtype = t, qclass = c,
          q_printDnsQuestion = Some PrintDnsQuestion\<rparr>)))))"

definition printDnsQuestion :: "dnsQuestion \<Rightarrow> ('w world_scheme, unit) prog" where
  "printDnsQuestion self =
     pbind (puts (''----- DNS Question -----'' @ nl)) (\<lambda>_.
     pbind (puts (ljust 50 ''Query Name'' @ ljust 50 ''Query Type'' @ ljust 50 ''Query Class'' @ nl)) (\<lambda>_.
     pbind (lift (cstring (qname self))) (\<lambda>s.
     pbind (puts (ljust 50 (map show_c s) @ ljust 50 (show_dec (unat (qtype self))) @
                  ljust 50 (show_dec (unat (qclass self))) @ nl)) (\<lambda>_.
     puts (nl @ nl)))))"

definition call_printDnsQuestion :: "dnsQuestion \<Rightarrow> ('w world_scheme, unit) prog" where
  "call_printDnsQuestion q =
     (case q_printDnsQuestion q of
        None \<Rightarrow> stop Uninit
      | Some PrintDnsQuestion \<Rightarrow> printDnsQuestion q)"

section \<open>The contract of a growing string\<close>

text \<open>
  What the loop of \<^verbatim>\<open>extractQueryName\<close> relies on: an append never writes outside the buffer,
  never fails while memory is left and the string is short, and appends. \<open>blocks\<close> counts the live
  blocks the string owns.
\<close>

locale growing_string =
  fixes push :: "'b \<Rightarrow> byte \<Rightarrow> ('w world_scheme, 'b) prog"
    and content :: "'b \<Rightarrow> byte list"
    and blocks :: "'b \<Rightarrow> nat"
    and inv :: "'b \<Rightarrow> bool"
    and limit :: nat
  assumes push_ok: "inv b \<Longrightarrow> ample w \<Longrightarrow> length (content b) < limit \<Longrightarrow>
    \<exists>b' w' k. push b c w = Inr (b', w') \<and> inv b' \<and> content b' = content b @ [c] \<and>
      blocks b' = blocks b + k \<and> effect k [] w w'"
begin

lemma push_bytes:
  assumes "inv b" and "ample w" and "i + n \<le> length p" and "length (content b) + n \<le> limit"
  shows "\<exists>b' w' k. pfold (\<lambda>b i. pbind (lift (rd p i)) (push b)) [i..<i + n] b w = Inr (b', w') \<and>
    inv b' \<and> content b' = content b @ take n (drop i p) \<and> blocks b' = blocks b + k \<and> effect k [] w w'"
  using assms
proof (induction n arbitrary: i b w)
  case 0
  then show ?case by (auto intro: exI [of _ 0])
next
  case (Suc n)
  then obtain b1 w1 j where 1: "push b (p ! i) w = Inr (b1, w1)" "inv b1"
    "content b1 = content b @ [p ! i]" "blocks b1 = blocks b + j" "effect j [] w w1"
    using push_ok [of b w "p ! i"] by auto
  with Suc.prems have "ample w1" "Suc i + n \<le> length p" "length (content b1) + n \<le> limit"
    by (simp_all add: effect_ample)
  with Suc.IH [OF 1(2)] obtain b2 w2 k where 2:
    "pfold (\<lambda>b i. pbind (lift (rd p i)) (push b)) [Suc i..<Suc i + n] b1 w1 = Inr (b2, w2)" "inv b2"
    "content b2 = content b1 @ take n (drop (Suc i) p)" "blocks b2 = blocks b1 + k" "effect k [] w1 w2"
    by blast
  have upt: "[i..<i + Suc n] = i # [Suc i..<Suc i + n]" by (simp add: upt_conv_Cons)
  have drop: "drop i p = p ! i # drop (Suc i) p" using Suc.prems by (simp add: Cons_nth_drop_Suc)
  have "pfold (\<lambda>b i. pbind (lift (rd p i)) (push b)) [i..<i + Suc n] b w = Inr (b2, w2)"
    using Suc.prems 1(1) 2(1) unfolding upt by (simp add: pbind_def)
  moreover have "effect (j + k) [] w w2" using effect_trans [OF 1(5) 2(5)] by simp
  ultimately show ?case using 1 2 by (auto simp: drop intro!: exI [of _ "j + k"])
qed

lemma push_bytes_over:
  assumes "inv b" and "ample w" and "i \<le> length p" and "length p < i + n"
    and "length (content b) + (length p - i) \<le> limit"
  shows "pfold (\<lambda>b i. pbind (lift (rd p i)) (push b)) [i..<i + n] b w = Inl OutOfBounds"
  using assms
proof (induction n arbitrary: i b w)
  case 0
  then show ?case by simp
next
  case (Suc n)
  have upt: "[i..<i + Suc n] = i # [Suc i..<Suc i + n]" by (simp add: upt_conv_Cons)
  show ?case
  proof (cases "i < length p")
    case False
    then show ?thesis unfolding upt by (simp add: pbind_def)
  next
    case True
    with Suc.prems have "length (content b) < limit" by linarith
    with Suc.prems obtain b1 w1 j where 1: "push b (p ! i) w = Inr (b1, w1)" "inv b1"
      "content b1 = content b @ [p ! i]" "effect j [] w w1"
      using push_ok [of b w "p ! i"] by auto
    with Suc.prems True have "ample w1" "length (content b1) + (length p - Suc i) \<le> limit"
      by (simp_all add: effect_ample)
    moreover have "Suc i \<le> length p" "length p < Suc i + n" using True Suc.prems by simp_all
    ultimately have "pfold (\<lambda>b i. pbind (lift (rd p i)) (push b)) [Suc i..<Suc i + n] b1 w1
        = Inl OutOfBounds"
      using Suc.IH [OF 1(2)] by blast
    then show ?thesis using True 1(1) unfolding upt by (simp add: pbind_step del: upt_Suc)
  qed
qed

end

section \<open>The invariant of the buffer\<close>

definition qname_inv :: "qname_buf \<Rightarrow> bool" where
  "qname_inv b \<longleftrightarrow>
     (case queryName b of
        None \<Rightarrow> queryNameLen b = 0 \<and> queryNameCap b = 0
      | Some d \<Rightarrow> length d = queryNameCap b \<and> 0 < queryNameLen b \<and> queryNameLen b \<le> queryNameCap b \<and>
          queryNameCap b \<le> 2 * queryNameLen b \<and> None \<notin> set (take (queryNameLen b) d))"

definition qname_content :: "qname_buf \<Rightarrow> byte list" where
  "qname_content b = (case queryName b of None \<Rightarrow> [] | Some d \<Rightarrow> map the (take (queryNameLen b) d))"

definition qname_blocks :: "qname_buf \<Rightarrow> nat" where
  "qname_blocks b = (if queryName b = None then 0 else 1)"

lemma qname_inv_length: "qname_inv b \<Longrightarrow> length (qname_content b) = queryNameLen b"
  by (auto simp: qname_inv_def qname_content_def split: option.splits)

lemma qname_inv_nonempty: "qname_inv b \<Longrightarrow> qname_content b \<noteq> [] \<longleftrightarrow> queryName b \<noteq> None"
  by (auto simp: qname_inv_def qname_content_def split: option.splits)

text \<open>A write at the end of the contents, once there is room for it.\<close>

definition has_room :: "qname_buf \<Rightarrow> byte list \<Rightarrow> bool" where
  "has_room b cs \<longleftrightarrow> (\<exists>d. queryName b = Some d \<and> length d = queryNameCap b \<and>
     queryNameLen b = length cs \<and> length cs < queryNameCap b \<and>
     queryNameCap b \<le> 2 * length cs + 2 \<and> take (length cs) d = map Some cs)"

lemma has_room_write:
  assumes "has_room b cs"
  shows "\<exists>d. write_qname b (queryNameLen b) c = Inr (b\<lparr>queryName := Some d\<rparr>) \<and>
    length d = queryNameCap b \<and> take (Suc (length cs)) d = map Some cs @ [Some c]"
proof -
  from assms obtain d where d: "queryName b = Some d" "length d = queryNameCap b"
    "queryNameLen b = length cs" "length cs < queryNameCap b" "take (length cs) d = map Some cs"
    by (auto simp: has_room_def)
  then have "take (Suc (length cs)) (d[length cs := Some c]) = map Some cs @ [Some c]"
    by (simp add: take_Suc_conv_app_nth)
  with d show ?thesis
    by (auto simp: write_qname_def intro!: exI [of _ "d[length cs := Some c]"])
qed

lemma has_room_store:
  assumes "has_room b cs" and "length cs < 536870912"
  shows "\<exists>b'. store_qname b c = Inr b' \<and> qname_inv b' \<and> qname_content b' = cs @ [c] \<and> queryName b' \<noteq> None"
proof -
  from assms(1) obtain d where d: "write_qname b (queryNameLen b) c = Inr (b\<lparr>queryName := Some d\<rparr>)"
    "length d = queryNameCap b" "take (Suc (length cs)) d = map Some cs @ [Some c]"
    using has_room_write by blast
  from assms(1) have len: "queryNameLen b = length cs" "length cs < queryNameCap b"
    "queryNameCap b \<le> 2 * length cs + 2"
    by (auto simp: has_room_def)
  with assms(2) d have "store_qname b c = Inr (b\<lparr>queryName := Some d, queryNameLen := Suc (length cs)\<rparr>)"
    by (simp add: store_qname_def fit_int_def)
  then show ?thesis using d len by (auto simp: qname_inv_def qname_content_def)
qed

lemma realloc_room:
  assumes "qname_inv b" and "ample w" and "queryNameLen b < n" and "n \<le> 2 * queryNameLen b + 2"
  shows "\<exists>b' w' k. realloc_qname (b\<lparr>queryNameCap := n\<rparr>) w = Inr (b', w') \<and>
    has_room b' (qname_content b) \<and> 1 = qname_blocks b + k \<and> effect k [] w w'"
proof (cases "queryName b")
  case None
  with assms show ?thesis
    by (auto simp: realloc_qname_def ample_def qname_inv_def has_room_def qname_content_def
        qname_blocks_def effect_def)
next
  case (Some d)
  with assms(1) have d: "length d = queryNameCap b" "queryNameLen b \<le> queryNameCap b"
    "None \<notin> set (take (queryNameLen b) d)"
    by (auto simp: qname_inv_def)
  then have "map Some (map the (take (queryNameLen b) d)) = take (queryNameLen b) d"
    by (blast intro: map_Some_the)
  with Some assms d show ?thesis
    by (auto simp: realloc_qname_def ample_def has_room_def qname_content_def qname_blocks_def
        effect_def min_def)
qed

lemma no_realloc_room:
  assumes "qname_inv b" and "\<not> queryNameCap b \<le> queryNameLen b"
  shows "has_room b (qname_content b)" and "qname_blocks b = 1"
proof -
  from assms obtain d where d: "queryName b = Some d" "length d = queryNameCap b"
    "queryNameLen b \<le> queryNameCap b" "queryNameCap b \<le> 2 * queryNameLen b"
    "None \<notin> set (take (queryNameLen b) d)"
    by (auto simp: qname_inv_def split: option.splits)
  then have "map Some (map the (take (queryNameLen b) d)) = take (queryNameLen b) d"
    by (blast intro: map_Some_the)
  with d assms(2) show "has_room b (qname_content b)" "qname_blocks b = 1"
    by (simp_all add: has_room_def qname_content_def qname_blocks_def)
qed

text \<open>The three appends share the growth of a full buffer to a capacity \<open>n\<close>.\<close>

definition grow_if_full :: "qname_buf \<Rightarrow> nat \<Rightarrow> ('w world_scheme, qname_buf) prog" where
  "grow_if_full b n =
     (if queryNameCap b \<le> queryNameLen b then realloc_qname (b\<lparr>queryNameCap := n\<rparr>) else ret b)"

lemma make_room:
  assumes "qname_inv b" and "ample w"
    and "queryNameCap b \<le> queryNameLen b \<Longrightarrow> queryNameLen b < n \<and> n \<le> 2 * queryNameLen b + 2"
  shows "\<exists>b' w' k. grow_if_full b n w = Inr (b', w') \<and> has_room b' (qname_content b) \<and> 1 = qname_blocks b + k \<and> effect k [] w w'"
proof (cases "queryNameCap b \<le> queryNameLen b")
  case True
  with assms realloc_room [of b w n] show ?thesis by (auto simp: grow_if_full_def)
next
  case False
  with no_realloc_room [OF assms(1)] show ?thesis
    by (auto simp: grow_if_full_def intro: exI [of _ 0])
qed

lemma grow_store:
  fixes w :: "'a world_scheme"
  assumes "qname_inv b" and "ample w" and "length (qname_content b) < 536870912"
    and "queryNameCap b \<le> queryNameLen b \<Longrightarrow> queryNameLen b < n \<and> n \<le> 2 * queryNameLen b + 2"
  shows "\<exists>b' w' k. pbind (grow_if_full b n) (\<lambda>b. lift (store_qname b c)) w = Inr (b', w') \<and>
      qname_inv b' \<and> qname_content b' = qname_content b @ [c] \<and> qname_blocks b' = qname_blocks b + k \<and>
      effect k [] w w'"
proof -
  obtain b1 w1 k where 1: "grow_if_full b n w = Inr (b1, w1)" "has_room b1 (qname_content b)"
    "1 = qname_blocks b + k" "effect k [] w w1"
    using make_room [OF assms(1,2,4)] by blast
  have run: "pbind (grow_if_full b n) f w = f b1 w1" for f :: "qname_buf \<Rightarrow> ('a world_scheme, qname_buf) prog"
    using 1(1) by (rule pbind_step)
  obtain b2 where 2: "store_qname b1 c = Inr b2" "qname_inv b2"
    "qname_content b2 = qname_content b @ [c]" "queryName b2 \<noteq> None"
    using has_room_store [OF 1(2) assms(3)] by blast
  have "qname_blocks b2 = 1" using 2(4) by (simp add: qname_blocks_def)
  then have "qname_blocks b2 = qname_blocks b + k" using 1(3) by (rule trans)
  moreover have "lift (store_qname b1 c) w1 = Inr (b2, w1)"
    using 2(1) by simp
  ultimately show ?thesis
    using 2(2,3) 1(4) by (subst run) blast
qed

lemma push_octet_ok:
  assumes "qname_inv b" and "ample w" and "length (qname_content b) < 536870912"
  shows "\<exists>b' w' k. push_octet b c w = Inr (b', w') \<and> qname_inv b' \<and>
    qname_content b' = qname_content b @ [c] \<and> qname_blocks b' = qname_blocks b + k \<and> effect k [] w w'"
proof -
  define n where "n = (if queryNameCap b = 0 then 1 else queryNameCap b * 2)"
  have len: "queryNameLen b < 536870912" using assms by (simp add: qname_inv_length)
  have n: "queryNameLen b < n \<and> n \<le> 2 * queryNameLen b + 2" if "queryNameCap b \<le> queryNameLen b"
    using assms(1) that by (auto simp: n_def qname_inv_def split: option.splits)
  then have "push_octet b c w = pbind (grow_if_full b n) (\<lambda>b. lift (store_qname b c)) w"
    using len by (auto simp: push_octet_def grow_if_full_def n_def fit_int_def)
  with grow_store [OF assms n, of c] show ?thesis by simp
qed

lemma push_dot_ok:
  assumes "qname_inv b" and "qname_content b \<noteq> []" and "ample w"
    and "length (qname_content b) < 536870912"
  shows "\<exists>b' w' k. push_dot b c w = Inr (b', w') \<and> (qname_inv b' \<and> qname_content b' \<noteq> []) \<and>
    qname_content b' = qname_content b @ [c] \<and> qname_blocks b' = qname_blocks b + k \<and> effect k [] w w'"
proof -
  have len: "queryNameLen b < 536870912" using assms by (simp add: qname_inv_length)
  have n: "queryNameLen b < queryNameCap b * 2 \<and> queryNameCap b * 2 \<le> 2 * queryNameLen b + 2"
    if "queryNameCap b \<le> queryNameLen b"
    using assms(1,2) that by (auto simp: qname_inv_def qname_content_def split: option.splits)
  then have "push_dot b c w = pbind (grow_if_full b (queryNameCap b * 2)) (\<lambda>b. lift (store_qname b c)) w"
    using len by (auto simp: push_dot_def grow_if_full_def fit_int_def)
  with grow_store [OF assms(1,3,4) n, of c] show ?thesis by auto
qed

interpretation octets: growing_string push_octet qname_content qname_blocks qname_inv 536870912
  by unfold_locales (rule push_octet_ok)

interpretation dots: growing_string push_dot qname_content qname_blocks
  "\<lambda>b. qname_inv b \<and> qname_content b \<noteq> []" 536870912
  by unfold_locales (use push_dot_ok in blast)

lemma terminate_qname_ok:
  fixes w :: "'a world_scheme"
  assumes "qname_inv b" and "ample w" and "length (qname_content b) < 536870912"
  shows "\<exists>b' w' d k. terminate_qname b w = Inr (b', w') \<and>
    queryName b' = Some (map Some (qname_content b) @ [Some 0] @ d) \<and>
    1 = qname_blocks b + k \<and> effect k [] w w'"
proof -
  define cs where "cs = qname_content b"
  have len: "queryNameLen b < 536870912" using assms by (simp add: qname_inv_length)
  have n: "queryNameLen b < queryNameCap b + 1 \<and> queryNameCap b + 1 \<le> 2 * queryNameLen b + 2"
    if "queryNameCap b \<le> queryNameLen b"
    using assms(1) that by (auto simp: qname_inv_def split: option.splits)
  then have eq: "terminate_qname b w = pbind (grow_if_full b (queryNameCap b + 1))
        (\<lambda>b. lift (write_qname b (queryNameLen b) 0)) w"
    using len by (auto simp: terminate_qname_def grow_if_full_def fit_int_def)
  obtain b1 w1 k where 1: "grow_if_full b (queryNameCap b + 1) w = Inr (b1, w1)"
    "has_room b1 cs" "1 = qname_blocks b + k" "effect k [] w w1"
    using make_room [OF assms(1,2) n] by (auto simp: cs_def)
  have run: "pbind (grow_if_full b (queryNameCap b + 1)) f w = f b1 w1"
    for f :: "qname_buf \<Rightarrow> ('a world_scheme, qname_buf) prog"
    using 1(1) by (rule pbind_step)
  from 1 obtain d where d: "write_qname b1 (queryNameLen b1) 0 = Inr (b1\<lparr>queryName := Some d\<rparr>)"
    "take (Suc (length cs)) d = map Some cs @ [Some 0]"
    using has_room_write by blast
  then have "d = map Some cs @ [Some 0] @ drop (Suc (length cs)) d"
    by (metis append.assoc append_take_drop_id)
  then have "queryName (b1\<lparr>queryName := Some d\<rparr>)
      = Some (map Some (qname_content b) @ [Some 0] @ drop (Suc (length cs)) d)"
    by (simp add: cs_def)
  moreover have "lift (write_qname b1 (queryNameLen b1) 0) w1 = Inr (b1\<lparr>queryName := Some d\<rparr>, w1)"
    using d(1) by simp
  ultimately show ?thesis
    using 1(3,4) by (subst eq, subst run) blast
qed

section \<open>Domain names\<close>

text \<open>
  The reference: the labels of the encoded name at the front of a byte string, \<open>None\<close> when the
  name is cut off; the encoding of a list of labels; and the dotted form.
\<close>

fun labels :: "byte list \<Rightarrow> byte list list option" where
  "labels [] = None"
| "labels (c # p) =
     (if c = 0 then Some []
      else if unat c \<le> length p then map_option ((#) (take (unat c) p)) (labels (drop (unat c) p))
      else None)"

definition enc_name :: "byte list list \<Rightarrow> byte list" where
  "enc_name ls = concat (map (\<lambda>l. of_nat (length l) # l) ls) @ [0]"

fun dotted :: "byte list list \<Rightarrow> byte list" where
  "dotted [] = []"
| "dotted [l] = l"
| "dotted (l # ls) = l @ [46] @ dotted ls"

definition valid_label :: "byte list \<Rightarrow> bool" where
  "valid_label l \<longleftrightarrow> 0 < length l \<and> length l < 256"

lemma dotted_Cons: "dotted (l # ls) = l @ (if ls = [] then [] else [46] @ dotted ls)"
  by (cases ls) simp_all

lemma enc_name_simps [simp]:
  "enc_name [] = [0]" "enc_name (l # ls) = of_nat (length l) # l @ enc_name ls"
  by (simp_all add: enc_name_def)

lemma unat_label: "valid_label l \<Longrightarrow> unat (of_nat (length l) :: byte) = length l"
  by (simp add: valid_label_def unat_of_nat)

lemma labels_enc_name: "\<forall>l \<in> set ls. valid_label l \<Longrightarrow> labels (enc_name ls @ rest) = Some ls"
proof (induction ls)
  case Nil
  then show ?case by simp
next
  case (Cons l ls)
  have "(of_nat (length l) :: byte) \<noteq> 0"
    using Cons.prems unat_label [of l] by (auto simp: valid_label_def)
  with Cons unat_label [of l] show ?case by simp
qed

lemma labels_Some_enc:
  "labels p = Some ls \<Longrightarrow> (\<forall>l \<in> set ls. valid_label l) \<and> (\<exists>rest. p = enc_name ls @ rest)"
proof (induction p arbitrary: ls rule: labels.induct)
  case 1
  then show ?case by simp
next
  case (2 c p)
  show ?case
  proof (cases "c = 0")
    case True
    with 2 show ?thesis by auto
  next
    case False
    with "2.prems" obtain ls' where le: "unat c \<le> length p" and
      ls': "labels (drop (unat c) p) = Some ls'" "ls = take (unat c) p # ls'"
      by (auto split: if_splits)
    with "2.IH" False obtain rest where
      "\<forall>l \<in> set ls'. valid_label l" "drop (unat c) p = enc_name ls' @ rest"
      by blast
    moreover have "unat c < 256" using unsigned_less [of c] by simp
    then have "valid_label (take (unat c) p)"
      using le False unat_gt_0 [of c] by (simp add: valid_label_def min.absorb2)
    moreover have "p = take (unat c) p @ drop (unat c) p" by simp
    ultimately show ?thesis using le ls' by (auto simp: min.absorb2)
  qed
qed

lemma length_enc_name: "ls \<noteq> [] \<Longrightarrow> length (enc_name ls) = length (dotted ls) + 2"
  by (induction ls rule: dotted.induct) simp_all

section \<open>The loop against the reference\<close>

lemma push_at_eq: "push_at p = (\<lambda>b i. pbind (lift (rd p i)) (push_octet b))"
  by (intro ext) (simp add: push_at_def)

lemma labels_Nil_iff: "labels p = Some ls \<Longrightarrow> ls = [] \<longleftrightarrow> p ! 0 = 0"
  by (cases p) (auto split: if_splits)

text \<open>What one name does to the buffer: it appends the dotted name, or runs off the packet.\<close>

definition appends :: "qname_buf \<Rightarrow> 'w world_scheme \<Rightarrow> byte list option \<Rightarrow> fault + qname_buf \<times> 'w world_scheme \<Rightarrow> bool" where
  "appends b w cs r \<longleftrightarrow>
     (case cs of
        None \<Rightarrow> r = Inl OutOfBounds
      | Some cs \<Rightarrow> \<exists>b' w' k. r = Inr (b', w') \<and> qname_inv b' \<and> qname_content b' = qname_content b @ cs \<and>
          qname_blocks b' = qname_blocks b + k \<and> effect k [] w w')"

lemma appends_step:
  assumes "effect j [] w w1" and "qname_blocks b1 = qname_blocks b + j"
    and "qname_content b1 = qname_content b @ cs" and "appends b1 w1 ds r"
  shows "appends b w (map_option ((@) cs) ds) r"
proof (cases ds)
  case None
  with assms(4) show ?thesis by (simp add: appends_def)
next
  case (Some d)
  with assms(4) obtain b' w' k where r: "r = Inr (b', w')" "qname_inv b'"
    "qname_content b' = qname_content b1 @ d" "qname_blocks b' = qname_blocks b1 + k" "effect k [] w1 w'"
    by (auto simp: appends_def)
  moreover have "effect (j + k) [] w w'" using effect_trans [OF assms(1) r(5)] by simp
  ultimately show ?thesis
    using assms(2,3) Some by (auto simp: appends_def intro!: exI [of _ "j + k"])
qed

lemma label_pushed:
  assumes "qname_inv b" and "ample w" and "length (qname_content b) + length p \<le> 536870912"
    and "unat c \<le> length p"
  shows "\<exists>b' w' k. pfold (push_at (c # p)) [1..<unat c + 1] b w = Inr (b', w') \<and> qname_inv b' \<and>
    qname_content b' = qname_content b @ take (unat c) p \<and> qname_blocks b' = qname_blocks b + k \<and>
    effect k [] w w'"
  using octets.push_bytes [OF assms(1,2), of 1 "unat c" "c # p"] assms(3,4)
  by (simp add: push_at_eq del: upt_Suc)

lemma label_cut_off:
  assumes "qname_inv b" and "ample w" and "length (qname_content b) + length p \<le> 536870912"
    and "length p < unat c"
  shows "pfold (push_at (c # p)) [1..<unat c + 1] b w = Inl OutOfBounds"
  using octets.push_bytes_over [OF assms(1,2), of 1 "c # p" "unat c"] assms(3,4)
  by (simp add: push_at_eq del: upt_Suc)

text \<open>The separator: a dot when another label follows.\<close>

lemma separator_pushed:
  assumes "qname_inv b" and "qname_content b \<noteq> []" and "ample w"
    and "length (qname_content b) < 536870912"
  shows "\<exists>b' w' k. (if c \<noteq> 0 then push_dot b 46 else ret b) w = Inr (b', w') \<and> qname_inv b' \<and>
    qname_content b' = qname_content b @ (if c \<noteq> 0 then [46] else []) \<and>
    qname_blocks b' = qname_blocks b + k \<and> effect k [] w w'"
proof (cases "c = 0")
  case True
  with assms show ?thesis by (auto intro: exI [of _ 0])
next
  case False
  with dots.push_ok [of b w 46] assms show ?thesis by auto
qed

lemma qname_loop_spec:
  fixes w :: "'a world_scheme"
  assumes "qname_inv b" and "ample w" and "length (qname_content b) + length p \<le> 536870912"
  shows "appends b w (map_option dotted (labels p)) (qname_loop p b w)"
  using assms
proof (induction p arbitrary: b w rule: labels.induct)
  case 1
  then show ?case by (simp add: appends_def qname_loop.simps [of "[]"])
next
  case (2 c p)
  note loop = qname_loop.simps [of "c # p" b]
  show ?case
  proof (cases "c = 0")
    case True
    then have "qname_loop (c # p) b w = Inr (b, w)" unfolding loop by simp
    with True "2.prems"(1) show ?thesis by (auto simp: appends_def intro: exI [of _ 0])
  next
    case c: False
    show ?thesis
    proof (cases "unat c \<le> length p")
      case False
      with label_cut_off [OF "2.prems"(1,2), of p c] "2.prems"(3) c show ?thesis
        by (simp add: appends_def loop pbind_fault del: upt_Suc)
    next
      case le: True
      define q where "q = drop (unat c) p"
      have q: "padd (c # p) (unat c + 1) = q" by (simp add: q_def padd_def)
      have cs: "take (unat c) p \<noteq> []" using c le unat_gt_0 [of c] by auto
      from label_pushed [OF "2.prems"(1,2) _ le] "2.prems"(3) obtain b1 w1 j where
        1: "pfold (push_at (c # p)) [1..<unat c + 1] b w = Inr (b1, w1)" "qname_inv b1"
        "qname_content b1 = qname_content b @ take (unat c) p" "qname_blocks b1 = qname_blocks b + j"
        "effect j [] w w1"
        by auto
      have amp: "ample w1" using effect_ample [OF 1(5)] "2.prems"(2) by simp
      have len: "length (qname_content b1) + length q < 536870912"
        using "2.prems"(3) le 1(3) by (simp add: q_def)
      have "qname_loop (c # p) b w = pbind (pfold (push_at (c # p)) [1..<unat c + 1] b)
          (\<lambda>b. pbind (lift (rd q 0)) (\<lambda>c. pbind (if c \<noteq> 0 then push_dot b 46 else ret b) (qname_loop q))) w"
        using c by (simp add: loop Let_def q [simplified] del: upt_Suc)
      also have "\<dots> = pbind (lift (rd q 0))
          (\<lambda>c. pbind (if c \<noteq> 0 then push_dot b1 46 else ret b1) (qname_loop q)) w1"
        using 1(1) by (rule pbind_step)
      finally have loop1: "qname_loop (c # p) b w = pbind (lift (rd q 0))
          (\<lambda>c. pbind (if c \<noteq> 0 then push_dot b1 46 else ret b1) (qname_loop q)) w1" .
      have "appends b1 w1 (map_option (\<lambda>ls. (if ls = [] then [] else [46]) @ dotted ls) (labels q))
          (qname_loop (c # p) b w)"
      proof (cases q)
        case Nil
        then show ?thesis by (simp add: loop1 appends_def)
      next
        case (Cons d r)
        obtain b2 w2 k where 2: "(if d \<noteq> 0 then push_dot b1 46 else ret b1) w1 = Inr (b2, w2)"
          "qname_inv b2" "qname_content b2 = qname_content b1 @ (if d \<noteq> 0 then [46] else [])"
          "qname_blocks b2 = qname_blocks b1 + k" "effect k [] w1 w2"
          using separator_pushed [of b1 w1 d] 1(2,3) cs amp len by auto
        have "ample w2" using effect_ample [OF 2(5)] amp by simp
        moreover have "length (qname_content b2) + length q \<le> 536870912"
          using 2(3) len by (cases "d = 0") simp_all
        ultimately have "appends b2 w2 (map_option dotted (labels q)) (qname_loop q b2 w2)"
          using "2.IH" [OF c le 2(2)] by (simp add: q_def)
        then have "appends b1 w1 (map_option ((@) (if d \<noteq> 0 then [46] else []))
            (map_option dotted (labels q))) (qname_loop q b2 w2)"
          using appends_step [OF 2(5,4,3)] by blast
        moreover have "map_option ((@) (if d \<noteq> 0 then [46] else [])) (map_option dotted (labels q))
            = map_option (\<lambda>ls. (if ls = [] then [] else [46]) @ dotted ls) (labels q)"
          using labels_Nil_iff [of q] Cons by (cases "labels q") auto
        moreover have "rd q 0 = Inr d" using Cons by simp
        then have "qname_loop (c # p) b w
            = pbind (if d \<noteq> 0 then push_dot b1 46 else ret b1) (qname_loop q) w1"
          by (simp only: loop1 lift_Inr pbind_ret)
        then have "qname_loop (c # p) b w = qname_loop q b2 w2"
          using pbind_step [of "if d \<noteq> 0 then push_dot b1 46 else ret b1", OF 2(1)] by (rule trans)
        ultimately show ?thesis by simp
      qed
      with appends_step [OF 1(5,4,3)]
      have "appends b w (map_option ((@) (take (unat c) p))
          (map_option (\<lambda>ls. (if ls = [] then [] else [46]) @ dotted ls) (labels q))) (qname_loop (c # p) b w)"
        by blast
      moreover have "map_option ((@) (take (unat c) p))
          (map_option (\<lambda>ls. (if ls = [] then [] else [46]) @ dotted ls) (labels q))
          = map_option dotted (labels (c # p))"
        using c le by (cases "labels (drop (unat c) p)") (simp_all add: q_def dotted_Cons)
      ultimately show ?thesis by simp
    qed
  qed
qed

section \<open>The functions against the reference\<close>

lemma cstring_append: "cstring (map Some cs @ Some 0 # d) = Inr (takeWhile (\<lambda>c. c \<noteq> 0) cs)"
  by (induction cs) simp_all

lemma length_dotted_less: "labels p = Some ls \<Longrightarrow> length (dotted ls) < length p"
proof -
  assume "labels p = Some ls"
  then obtain rest where "p = enc_name ls @ rest" using labels_Some_enc by blast
  then show ?thesis by (cases "ls = []") (simp_all add: length_enc_name)
qed

lemma extractQueryName_cut_off:
  assumes "ample w" and "length p < 536870912" and "labels p = None"
  shows "extractQueryName p w = Inl OutOfBounds"
proof -
  let ?b = "\<lparr>queryName = None, queryNameLen = 0, queryNameCap = 0\<rparr>"
  have "appends ?b w (map_option dotted (labels p)) (qname_loop p ?b w)"
    using assms by (intro qname_loop_spec) (simp_all add: qname_inv_def qname_content_def)
  then show ?thesis using assms(3) by (simp add: appends_def extractQueryName_def pbind_fault)
qed

lemma extractQueryName_ok:
  fixes w :: "'a world_scheme"
  assumes "ample w" and "length p < 536870912" and "labels p = Some ls"
  shows "\<exists>d w'. extractQueryName p w = Inr (map Some (dotted ls) @ Some 0 # d, w') \<and> effect 1 [] w w'"
proof -
  let ?b = "\<lparr>queryName = None, queryNameLen = 0, queryNameCap = 0\<rparr>"
  have "appends ?b w (map_option dotted (labels p)) (qname_loop p ?b w)"
    using assms by (intro qname_loop_spec) (simp_all add: qname_inv_def qname_content_def)
  then obtain b1 w1 j where 1: "qname_loop p ?b w = Inr (b1, w1)" "qname_inv b1"
    "qname_content b1 = dotted ls" "qname_blocks b1 = j" "effect j [] w w1"
    using assms(3) by (auto simp: appends_def qname_content_def qname_blocks_def)
  have "ample w1" "length (qname_content b1) < 536870912"
    using effect_ample [OF 1(5)] assms length_dotted_less [OF assms(3)] 1(3) by simp_all
  from terminate_qname_ok [OF 1(2) this] obtain b2 w2 d k where
    2: "terminate_qname b1 w1 = Inr (b2, w2)" "queryName b2 = Some (map Some (dotted ls) @ Some 0 # d)"
    "1 = qname_blocks b1 + k" "effect k [] w1 w2"
    by (auto simp: 1(3))
  have "effect 1 [] w w2" using effect_trans [OF 1(5) 2(4)] 2(3) 1(4) by simp
  moreover have "extractQueryName p w = Inr (map Some (dotted ls) @ Some 0 # d, w2)"
    using 1(1) 2(1,2) by (simp add: extractQueryName_def pbind_step)
  ultimately show ?thesis by blast
qed

definition question_at :: "cptr \<Rightarrow> nat \<Rightarrow> byte option list \<Rightarrow> dnsQuestion" where
  "question_at p n block =
     \<lparr>qname = block, qnamelen = of_nat n,
      qtype = ucast (be2 (p ! n) (p ! (n + 1))), qclass = ucast (be2 (p ! (n + 2)) (p ! (n + 3))),
      q_printDnsQuestion = Some PrintDnsQuestion\<rparr>"

lemma extractDnsQuestion_run:
  fixes w :: "'a world_scheme"
  assumes "ample w" and "length p < 536870912" and "labels p = Some ls"
    and n: "n = length (takeWhile (\<lambda>c. c \<noteq> 0) (dotted ls)) + 2" and "n < 65536"
  shows "if n + 4 \<le> length p
    then \<exists>d w'. extractDnsQuestion p w
           = Inr (question_at p n (map Some (dotted ls) @ Some 0 # d), w') \<and> effect 2 [] w w'
    else extractDnsQuestion p w = Inl OutOfBounds"
proof -
  define w1 where "w1 = grown 1 [] w"
  have m: "malloc_unchecked w = Inr ((), w1)"
    using assms(1) by (simp add: w1_def malloc_unchecked_run ample_allocs_ok)
  have "ample w1" using assms(1) by (simp add: w1_def)
  from extractQueryName_ok [OF this assms(2,3)] obtain d w2 where
    x: "extractQueryName p w1 = Inr (map Some (dotted ls) @ Some 0 # d, w2)" "effect 1 [] w1 w2"
    by blast
  have un: "unat (of_nat n :: u16) = n" using assms(5) by (simp add: unat_of_nat)
  have "effect 2 [] w w2"
    using effect_trans [OF effect_grown [of 1 "[]" w] x(2) [unfolded w1_def]]
    by (simp add: numeral_2_eq_2)
  moreover have "extractDnsQuestion p w =
      pbind (lift (extractQueryType p n)) (\<lambda>t. pbind (lift (extractQueryClass p n)) (\<lambda>c.
        ret \<lparr>qname = map Some (dotted ls) @ Some 0 # d, qnamelen = of_nat n, qtype = t, qclass = c,
             q_printDnsQuestion = Some PrintDnsQuestion\<rparr>)) w2"
    using m x(1) un unfolding n
    by (simp add: extractDnsQuestion_def pbind_step strlen_def cstring_append Let_def)
  ultimately show ?thesis
    by (auto simp: extractQueryType_def extractQueryClass_def run_simps question_at_def numeral_3_eq_3)
qed

text \<open>The text of a question whose name prints as \<open>s\<close>.\<close>

definition question_text :: "byte list \<Rightarrow> u16 \<Rightarrow> u16 \<Rightarrow> string" where
  "question_text s t c =
     ''----- DNS Question -----'' @ nl @
     ljust 50 ''Query Name'' @ ljust 50 ''Query Type'' @ ljust 50 ''Query Class'' @ nl @
     ljust 50 (map show_c s) @ ljust 50 (show_dec (unat t)) @ ljust 50 (show_dec (unat c)) @ nl @
     nl @ nl"

lemma call_printDnsQuestion_run:
  "call_printDnsQuestion (question_at p n (map Some cs @ Some 0 # d)) w =
     Inr ((), grown 0 (question_text (takeWhile (\<lambda>c. c \<noteq> 0) cs)
       (ucast (be2 (p ! n) (p ! (n + 1)))) (ucast (be2 (p ! (n + 2)) (p ! (n + 3))))) w)"
  by (simp add: call_printDnsQuestion_def question_at_def printDnsQuestion_def cstring_append
      question_text_def)

section \<open>Properties\<close>

lemma takeWhile_nonzero: "0 \<notin> set cs \<Longrightarrow> takeWhile (\<lambda>c. c \<noteq> 0) cs = (cs :: byte list)"
  by (rule takeWhile_eq_all_conv [THEN iffD2]) auto

lemma dotted_no_zero: "\<forall>l \<in> set ls. 0 \<notin> set l \<Longrightarrow> 0 \<notin> set (dotted ls)"
  by (induction ls rule: dotted.induct) auto

text \<open>
  C5: with enough memory, \<^verbatim>\<open>extractQueryName\<close> terminates on every packet, and returns a string
  exactly when a complete encoded name is at the pointer: the string is the labels joined by dots and
  terminated, in one live block. A name that is cut off is an out-of-bounds read. No write ever falls
  outside the buffer, whatever the labels are.
\<close>

theorem extractQueryName_exact:
  assumes "ample w" and "length p < 536870912"
  shows "case labels p of
      None \<Rightarrow> extractQueryName p w = Inl OutOfBounds
    | Some ls \<Rightarrow> (\<forall>l \<in> set ls. valid_label l) \<and> (\<exists>rest. p = enc_name ls @ rest) \<and>
        (\<exists>d w'. extractQueryName p w = Inr (map Some (dotted ls) @ Some 0 # d, w') \<and> effect 1 [] w w')"
  using extractQueryName_ok [OF assms] extractQueryName_cut_off [OF assms] labels_Some_enc [of p]
  by (auto split: option.split)

theorem extractQueryName_exact_witness:
  "(\<exists>d w'. extractQueryName [3, 119, 119, 119, 2, 118, 110, 0, 7] start_world
      = Inr (map Some [119, 119, 119, 46, 118, 110] @ Some 0 # d, w') \<and> effect 1 [] start_world w')"
proof -
  have "labels [3, 119, 119, 119, 2, 118, 110, 0, 7] = Some [[119, 119, 119], [118, 110]]"
    by simp
  with extractQueryName_exact [of start_world "[3, 119, 119, 119, 2, 118, 110, 0, 7]"]
  show ?thesis by simp
qed

text \<open>
  C17: a question with at least one label and no zero octet in a label is read back as it was encoded:
  the name in dotted form, its type and its class, at the price of two live blocks.
\<close>

theorem extractDnsQuestion_encode:
  assumes "ample w" and "ls \<noteq> []" and "\<forall>l \<in> set ls. valid_label l \<and> 0 \<notin> set l"
    and "length (enc_name ls) < 65536" and "length rest < 65536"
  shows "\<exists>q w'. extractDnsQuestion (enc_name ls @ [t1, t0, c1, c0] @ rest) w = Inr (q, w') \<and>
    effect 2 [] w w' \<and> cstring (qname q) = Inr (dotted ls) \<and>
    unat (qtype q) = 256 * unat t1 + unat t0 \<and> unat (qclass q) = 256 * unat c1 + unat c0"
proof -
  let ?p = "enc_name ls @ [t1, t0, c1, c0] @ rest"
  define n where "n = length (enc_name ls)"
  have tw: "takeWhile (\<lambda>c. c \<noteq> 0) (dotted ls) = dotted ls"
    using assms(3) by (intro takeWhile_nonzero dotted_no_zero) blast
  then have n: "n = length (takeWhile (\<lambda>c. c \<noteq> 0) (dotted ls)) + 2"
    using length_enc_name [OF assms(2)] by (simp only: n_def tw)
  have "labels ?p = Some ls" using assms(3) by (intro labels_enc_name) blast
  from extractDnsQuestion_run [OF assms(1) _ this n] assms(4,5)
  obtain d w' where q: "extractDnsQuestion ?p w = Inr (question_at ?p n (map Some (dotted ls) @ Some 0 # d), w')"
    "effect 2 [] w w'"
    by (auto simp: n_def)
  have "unat (ucast (be2 a b) :: u16) = 256 * unat a + unat b" for a b
    using be2_unat [of a b] be2_less [of a b] by (simp add: unsigned_ucast_eq take_bit_nat_eq_self)
  with q show ?thesis
    by (simp add: question_at_def cstring_append tw n_def nth_append)
qed

theorem extractDnsQuestion_encode_witness:
  "\<exists>q w'. extractDnsQuestion (enc_name [[119, 119, 119], [118, 110]] @ [0, 28, 0, 1] @ [9]) start_world
      = Inr (q, w') \<and> effect 2 [] start_world w' \<and>
    cstring (qname q) = Inr (dotted [[119, 119, 119], [118, 110]]) \<and>
    unat (qtype q) = 256 * unat (0 :: byte) + unat (28 :: byte) \<and>
    unat (qclass q) = 256 * unat (0 :: byte) + unat (1 :: byte)"
  by (rule extractDnsQuestion_encode) (simp_all add: valid_label_def)

text \<open>
  C26: the question for the root name, whose encoding is a single zero octet, is misread: the type and
  the class are taken one byte too far, and when the question ends the packet the read is out of
  bounds.
\<close>

theorem extractDnsQuestion_root:
  assumes "ample w" and "length rest < 65536"
  shows "case rest of
      [] \<Rightarrow> extractDnsQuestion (enc_name [] @ [t1, t0, c1, c0]) w = Inl OutOfBounds
    | x # _ \<Rightarrow> \<exists>q w'. extractDnsQuestion (enc_name [] @ [t1, t0, c1, c0] @ rest) w = Inr (q, w') \<and>
        cstring (qname q) = Inr [] \<and> qtype q = ucast (be2 t0 c1) \<and> qclass q = ucast (be2 c0 x)"
proof -
  let ?p = "enc_name [] @ [t1, t0, c1, c0] @ rest"
  have "labels ?p = Some []" by simp
  from extractDnsQuestion_run [OF assms(1) _ this refl] assms(2)
  show ?thesis by (cases rest) (auto simp: question_at_def)
qed

theorem extractDnsQuestion_root_witness:
  "extractDnsQuestion [0, 0, 2, 0, 1] start_world = Inl OutOfBounds"
  using extractDnsQuestion_root [of start_world "[]" 0 2 0 1] by simp

lemma qname_loop_zero: "qname_loop (0 # r) b = ret b"
  by (simp add: qname_loop.simps [of "0 # r"])

text \<open>
  The result of \<^verbatim>\<open>realloc\<close> is used unchecked: when the first allocation fails, every complete
  name makes \<^verbatim>\<open>extractQueryName\<close> write through the null pointer.
\<close>

theorem extractQueryName_out_of_memory:
  assumes "\<not> alloc_ok w (n_alloc w)" and "labels p = Some ls"
  shows "extractQueryName p w = Inl NullPtr"
proof (cases p)
  case Nil
  with assms(2) show ?thesis by simp
next
  case (Cons c r)
  show ?thesis
  proof (cases "c = 0")
    case True
    with Cons assms(1) show ?thesis
      by (simp add: extractQueryName_def qname_loop_zero terminate_qname_def pbind_def
          realloc_qname_def write_qname_def fit_int_def Let_def)
  next
    case False
    with assms(2) Cons have "unat c \<le> length r" "0 < unat c"
      using unat_gt_0 [of c] by (auto split: if_splits)
    then have "0 < length r" by linarith
    with \<open>0 < unat c\<close> have r: "rd (c # r) 1 = Inr (r ! 0)" and upt: "[1..<unat c + 1] = 1 # [2..<unat c + 1]"
      by (simp_all add: upt_conv_Cons numeral_2_eq_2 rd_def)
    have "pfold (push_at (c # r)) [1..<unat c + 1] \<lparr>queryName = None, queryNameLen = 0, queryNameCap = 0\<rparr> w
        = Inl NullPtr"
      unfolding upt using assms(1) r
      by (simp add: push_at_def push_octet_def pbind_def realloc_qname_def store_qname_def
          write_qname_def fit_int_def Let_def del: upt_Suc)
    with False show ?thesis
      by (simp add: Cons extractQueryName_def qname_loop.simps [of "c # r"] pbind_fault del: upt_Suc)
  qed
qed

theorem extractQueryName_out_of_memory_witness:
  "extractQueryName [1, 97, 0] (start_world\<lparr>alloc_ok := \<lambda>_. False\<rparr>) = Inl NullPtr"
  by (rule extractQueryName_out_of_memory [where ls = "[[97]]"]) simp_all

end
