(* ===== verification/Sniff.thy ===== *)
theory Sniff
  imports Ethernet_Frame Udp_Header Tcp_Header Dns_Header Dns_Question
begin

text \<open>
  \<^verbatim>\<open>sniff/src/sniff.c\<close>: the callback \<^verbatim>\<open>pcap_loop\<close> calls for each captured packet, and the
  functions it dispatches to. A packet is the \<^verbatim>\<open>caplen\<close> bytes libpcap hands over. \<open>showp\<close> is the
  implementation-defined text \<^verbatim>\<open>%p\<close> prints for a pointer at an offset from the packet.
\<close>

section \<open>Packet types\<close>

definition ETHERTYPE_IP :: u16 where "ETHERTYPE_IP = 0x0800"
definition ETHERTYPE_ARP :: u16 where "ETHERTYPE_ARP = 0x0806"
definition ETHERTYPE_REVARP :: u16 where "ETHERTYPE_REVARP = 0x8035"
definition ETHERTYPE_VLAN :: u16 where "ETHERTYPE_VLAN = 0x8100"
definition ETHERTYPE_IPX :: u16 where "ETHERTYPE_IPX = 0x8137"
definition ETHERTYPE_IPV6 :: u16 where "ETHERTYPE_IPV6 = 0x86DD"

lemmas ethertypes = ETHERTYPE_IP_def ETHERTYPE_ARP_def ETHERTYPE_REVARP_def ETHERTYPE_VLAN_def
  ETHERTYPE_IPX_def ETHERTYPE_IPV6_def

definition determinePacketType :: "cptr \<Rightarrow> fault + u16" where
  "determinePacketType packet = rbind (load16 packet 12) (\<lambda>ether_type. Inr (ntohs ether_type))"

definition printPacketType :: "u16 \<Rightarrow> ('w world_scheme, unit) prog" where
  "printPacketType etherType =
     pbind (puts ''Ether type:'') (\<lambda>_.
       if etherType = ETHERTYPE_IP then puts (''IP'' @ nl)
       else if etherType = ETHERTYPE_IPV6 then puts (''IPV6'' @ nl)
       else if etherType = ETHERTYPE_ARP then puts (''ARP'' @ nl)
       else if etherType = ETHERTYPE_REVARP then puts (''Reverse ARP'' @ nl)
       else if etherType = ETHERTYPE_VLAN then puts ''VLAN''
       else if etherType = ETHERTYPE_IPX then puts ''IPX''
       else puts (''Ether type '' @ show_dec (unat etherType) @ ''. Need more investigation'' @ nl))"

section \<open>Printing\<close>

text \<open>\<^verbatim>\<open>while (byteCount++ < payloadLength)\<close>, with \<open>n\<close> bytes still to print.\<close>

fun printPayload_loop :: "cptr \<Rightarrow> nat \<Rightarrow> ('w world_scheme, unit) prog" where
  "printPayload_loop tempPointer 0 = ret ()"
| "printPayload_loop tempPointer (Suc n) =
     pbind (lift (rd tempPointer 0)) (\<lambda>b.
     pbind (puts [show_c b]) (\<lambda>_.
     printPayload_loop (padd tempPointer 1) n))"

definition printPayload :: "cptr \<Rightarrow> int \<Rightarrow> ('w world_scheme, unit) prog" where
  "printPayload payload payloadLength =
     (if payloadLength > 0
      then pbind (printPayload_loop payload (nat payloadLength)) (\<lambda>_. puts nl)
      else puts ''The payload is empty'')"

definition printIPAddr :: "cptr \<Rightarrow> ('w world_scheme, unit) prog" where
  "printIPAddr p =
     pbind (for_each [0..<4] (print_byte (\<lambda>i b. show_dec (unat b) @ (if i < 3 then ''.'' else [])) p))
       (\<lambda>_. puts nl)"

definition printTCPPort :: "cptr \<Rightarrow> int \<Rightarrow> ('w world_scheme, unit) prog" where
  "printTCPPort p dataLength =
     pbind (for_each [0..<nat dataLength] (print_byte (\<lambda>_ b. show_dec (unat b)) p)) (\<lambda>_. puts nl)"

section \<open>The protocols\<close>

record pcap_pkthdr =
  caplen :: u32
  pkt_len :: u32

definition processDNS :: "cptr \<Rightarrow> ('w world_scheme, unit) prog" where
  "processDNS dnsHeaderPtr =
     pbind (extractDnsHeader dnsHeaderPtr) (\<lambda>dnsHdr.
     pbind (call_printDnsHeader dnsHdr) (\<lambda>_.
     pbind (if qr dnsHdr = 1 then puts ''DNS Response'' else ret ()) (\<lambda>_.
     pbind (extractDnsQuestion (padd dnsHeaderPtr 12)) (\<lambda>dnsQues.
     call_printDnsQuestion dnsQues))))"

definition processUdpPacket :: "nat \<Rightarrow> nat \<Rightarrow> cptr \<Rightarrow> ('w world_scheme, unit) prog" where
  "processUdpPacket ethernetHeaderLength ipHeaderLength packet =
     (let udpHeaderPtr = padd packet (ethernetHeaderLength + ipHeaderLength) in
      pbind (extractUdpHeader udpHeaderPtr) (\<lambda>h.
      if udp_dstPort h = 53
      then pbind (puts (''DNS Query'' @ nl)) (\<lambda>_. processDNS (padd udpHeaderPtr 8))
      else ret ()))"

text \<open>
  The declaration \<^verbatim>\<open>u_char tcpHeader[n]\<close> of a variable-length array needs a positive \<open>n\<close>.
\<close>

definition vla :: "nat \<Rightarrow> ('s, unit) prog" where
  "vla n = (if n = 0 then stop BadArraySize else ret ())"

definition processTcpPacket ::
    "(int \<Rightarrow> string) \<Rightarrow> nat \<Rightarrow> nat \<Rightarrow> pcap_pkthdr \<Rightarrow> cptr \<Rightarrow> ('w world_scheme, unit) prog" where
  "processTcpPacket showp ethernetHeaderLength ipHeaderLength pkthdr packet =
     (let tcpHeaderPtr = padd packet (ethernetHeaderLength + ipHeaderLength) in
      pbind (lift (rd tcpHeaderPtr 12)) (\<lambda>b.
      let tcpHeaderLength = unat (drop_bit 4 (ucast b AND 0xF0 :: u32)) * 4 in
      pbind (puts (''TCP header length in bytes: '' @ show_dec tcpHeaderLength @ nl)) (\<lambda>_.
      pbind (vla tcpHeaderLength) (\<lambda>_.
      pbind (lift (readn tcpHeaderPtr tcpHeaderLength)) (\<lambda>tcpHeader.
      pbind (extractTcpHeader tcpHeader) (\<lambda>h.
      pbind (call_printTcpHeader h) (\<lambda>_.
      let totalHeadersSize = ethernetHeaderLength + ipHeaderLength + tcpHeaderLength in
      pbind (puts (''Size of all headers combined: '' @ show_dec totalHeadersSize @ nl)) (\<lambda>_.
      let payloadLength = sint (caplen pkthdr - of_nat totalHeadersSize) in
      pbind (puts (''Payload size: '' @ show_int payloadLength @ nl)) (\<lambda>_.
      let payloadPtr = padd packet (nat payloadLength) in
      pbind (puts (''Memory address where payload begin: '' @ showp payloadLength @ nl)) (\<lambda>_.
      pbind (printPayload payloadPtr payloadLength) (\<lambda>_.
      puts nl)))))))))))"

section \<open>callback\<close>

text \<open>\<^verbatim>\<open>ipHeaderLength\<close> is \<open>None\<close> while it is uninitialised.\<close>

definition ip_header_length :: "u16 \<Rightarrow> cptr \<Rightarrow> fault + nat option" where
  "ip_header_length etherType ipHeaderPtr =
     (if etherType = ETHERTYPE_IPV6 then Inr (Some 40)
      else if etherType = ETHERTYPE_IP
      then rbind (rd ipHeaderPtr 0) (\<lambda>b. Inr (Some (unat (ucast b AND 0x0F :: u32) * 4)))
      else Inr None)"

definition use_int :: "nat option \<Rightarrow> fault + nat" where
  "use_int v = (case v of None \<Rightarrow> Inl Uninit | Some n \<Rightarrow> Inr n)"

definition callback :: "(int \<Rightarrow> string) \<Rightarrow> pcap_pkthdr \<Rightarrow> cptr \<Rightarrow> ('w world_scheme, unit) prog" where
  "callback showp pkthdr packet =
     pbind (lift (determinePacketType packet)) (\<lambda>etherType.
     pbind (lift (readn packet 14)) (\<lambda>ethernetHeader.
     let ipHeaderPtr = padd packet 14 in
     pbind (lift (ip_header_length etherType ipHeaderPtr)) (\<lambda>ipHeaderLength.
     pbind (lift (readn (padd ipHeaderPtr 12) 4)) (\<lambda>srcIP.
     pbind (lift (readn (padd ipHeaderPtr 16) 4)) (\<lambda>dstIP.
     pbind (lift (rd ipHeaderPtr 9)) (\<lambda>protocol.
     if protocol = 17
     then pbind (lift (use_int ipHeaderLength)) (\<lambda>n. processUdpPacket 14 n packet)
     else if protocol = 6
     then pbind (lift (use_int ipHeaderLength)) (\<lambda>n. processTcpPacket showp 14 n pkthdr packet)
     else ret ()))))))"

section \<open>The pieces\<close>

lemma determinePacketType_eq [run_simps]:
  "determinePacketType p = (if 14 \<le> length p then Inr (ucast (be2 (p ! 12) (p ! 13))) else Inl OutOfBounds)"
  by (auto simp: determinePacketType_def load16_def rd_def ntohs_be2)

lemma printPayload_loop_run:
  "printPayload_loop p n w =
     (if n \<le> length p then Inr ((), grown 0 (map show_c (take n p)) w) else Inl OutOfBounds)"
proof (induction n arbitrary: p w)
  case 0
  then show ?case by simp
next
  case (Suc n)
  show ?case
  proof (cases p)
    case Nil
    then show ?thesis by simp
  next
    case (Cons b q)
    with Suc.IH [of q] show ?thesis by (simp add: padd_def)
  qed
qed

lemma printPayload_run:
  "printPayload p n w =
     (if n \<le> 0 then Inr ((), grown 0 ''The payload is empty'' w)
      else if nat n \<le> length p then Inr ((), grown 0 (map show_c (take (nat n) p) @ nl) w)
      else Inl OutOfBounds)"
  by (simp add: printPayload_def pbind_def printPayload_loop_run)

section \<open>A TCP packet\<close>

text \<open>
  The header length field of the TCP header at \<open>p\<close>, in bytes, and the text the code prints for a
  packet whose headers take \<open>off + hl\<close> bytes.
\<close>

definition data_offset :: "cptr \<Rightarrow> nat" where
  "data_offset p = 4 * (unat (p ! 12) div 16)"

definition tcp_packet_text :: "(int \<Rightarrow> string) \<Rightarrow> nat \<Rightarrow> nat \<Rightarrow> tcpHeader \<Rightarrow> cptr \<Rightarrow> string" where
  "tcp_packet_text showp off hl h packet =
     (let total = off + hl; n = length packet - total in
      ''TCP header length in bytes: '' @ show_dec hl @ nl @
      tcp_text h @
      ''Size of all headers combined: '' @ show_dec total @ nl @
      ''Payload size: '' @ show_int (int n) @ nl @
      ''Memory address where payload begin: '' @ showp (int n) @ nl @
      (if n = 0 then ''The payload is empty'' else map show_c (take n (drop n packet)) @ nl) @ nl)"

lemma header_length_field:
  "unat (drop_bit 4 (ucast b AND 0xF0 :: u32)) * 4 = 4 * (unat b div 16)" for b :: byte
proof -
  have "unat (drop_bit 4 (ucast b AND 0xF0 :: u32)) = unat (drop_bit 4 b)"
    by (simp only: unat_word_bits) (simp add: bit_simps bit_eval eval_nat_numeral)
  also have "\<dots> = unat b div 16"
    by (simp only: unat_drop_bit_eq) (simp add: drop_bit_eq_div)
  finally show ?thesis by simp
qed

lemma data_offset_le: "data_offset p \<le> 60"
proof -
  have "unat (p ! 12) < 256" using unsigned_less [of "p ! 12"] by simp
  then show ?thesis by (simp add: data_offset_def)
qed

lemma sint_caplen:
  assumes "k \<le> n" and "n < 2147483648"
  shows "sint (of_nat n - of_nat k :: u32) = int (n - k)"
proof -
  obtain d where d: "n = k + d" "d < 2147483648" using assms by (metis le_add_diff_inverse less_imp_diff_less)
  have "sint (of_nat d :: u32) = int d"
    using d(2) by (simp add: signed_of_nat signed_take_bit_int_eq_self)
  with d(1) show ?thesis by simp
qed

lemma tcp_header_read:
  "12 < length p \<Longrightarrow> rd p 12 = Inr (p ! 12)"
  "unat (drop_bit 4 (ucast (p ! 12) AND 0xF0 :: u32)) * 4 = data_offset p"
  by (simp_all only: rd_in header_length_field data_offset_def)

lemma tcp_fields_take: "20 \<le> n \<Longrightarrow> n \<le> length p \<Longrightarrow> tcp_fields (take n p) = tcp_fields p"
  by (rule tcp.dec_prefix) simp_all

lemma processTcpPacket_no_header:
  "length (padd packet (e + i)) \<le> 12 \<Longrightarrow> processTcpPacket showp e i hdr packet w = Inl OutOfBounds"
  by (simp add: processTcpPacket_def Let_def)

lemma processTcpPacket_bad_length:
  fixes w :: "'a world_scheme"
  assumes "allocs_ok 1 w" and "12 < length (padd packet (e + i))"
    and "data_offset (padd packet (e + i)) < 20 \<or> length (padd packet (e + i)) < data_offset (padd packet (e + i))"
  shows "processTcpPacket showp e i hdr packet w =
    Inl (if data_offset (padd packet (e + i)) = 0 then BadArraySize else OutOfBounds)"
proof -
  let ?p = "padd packet (e + i)"
  note read = tcp_header_read(1) [OF assms(2)] tcp_header_read(2) [of ?p]
  have short: "tcp_fields (take (data_offset ?p) ?p) = Inl OutOfBounds" if "data_offset ?p < 20"
    using that by (intro tcp.dec_short) simp
  have ok: "allocs_ok 1 (grown 0 s w)" for s
    using assms(1) by (simp add: allocs_ok_def grown_def)
  show ?thesis
    unfolding processTcpPacket_def Let_def read lift_Inr pbind_ret
    using assms(3) by (auto simp: vla_def readn_eq pbind_def extractTcpHeader_run [OF ok] short)
qed

lemma processTcpPacket_run:
  fixes w :: "'a world_scheme"
  assumes "allocs_ok 1 w" and "caplen hdr = of_nat (length packet)" and "length packet < 2147483648"
    and "20 \<le> data_offset (padd packet (e + i))"
    and "e + i + data_offset (padd packet (e + i)) \<le> length packet"
    and "tcp_fields (padd packet (e + i)) = Inr h"
  shows "processTcpPacket showp e i hdr packet w =
    (if 2 * (length packet - (e + i + data_offset (padd packet (e + i)))) \<le> length packet
     then Inr ((), grown 1 (tcp_packet_text showp (e + i) (data_offset (padd packet (e + i))) h packet) w)
     else Inl OutOfBounds)"
proof -
  let ?p = "padd packet (e + i)"
  have len: "data_offset ?p \<le> length ?p" using assms(5) by simp
  have fields: "tcp_fields (take (data_offset ?p) ?p) = Inr h"
    using tcp_fields_take [OF assms(4) len] assms(6) by simp
  have read: "rd ?p 12 = Inr (?p ! 12)"
    using len assms(4) by (intro tcp_header_read(1)) linarith
  have ok: "allocs_ok 1 (grown 0 s w)" for s
    using assms(1) by (simp add: allocs_ok_def grown_def)
  define n where "n = length packet - (e + i + data_offset ?p)"
  have "sint (caplen hdr - of_nat (e + i + data_offset ?p)) = int n"
    unfolding n_def assms(2) by (rule sint_caplen) (use assms in simp_all)
  note cap = this n_def [symmetric]
  have fit: "n \<le> length packet - n \<longleftrightarrow> 2 * n \<le> length packet"
    using n_def by linarith
  show ?thesis
    unfolding processTcpPacket_def tcp_packet_text_def Let_def read lift_Inr pbind_ret
      tcp_header_read(2) cap nat_int
    using assms(4) len
    by (auto simp: vla_def readn_eq pbind_def extractTcpHeader_run [OF ok] fields
        call_printTcpHeader_run [OF fields] printPayload_run padd_def [of packet n] fit)
qed

lemma processTcpPacket_no_memory:
  assumes "\<not> allocs_ok 1 w" and "20 \<le> data_offset (padd packet (e + i))"
    and "e + i + data_offset (padd packet (e + i)) \<le> length packet"
  shows "processTcpPacket showp e i hdr packet w = Inl NullPtr"
proof -
  let ?p = "padd packet (e + i)"
  have len: "data_offset ?p \<le> length ?p" using assms(3) by simp
  have read: "rd ?p 12 = Inr (?p ! 12)"
    using len assms(2) by (intro tcp_header_read(1)) linarith
  have "malloc_unchecked (grown 0 s w) = Inl NullPtr" for s
    using assms(1) by (simp add: malloc_unchecked_def allocs_ok_def grown_def)
  then show ?thesis
    unfolding processTcpPacket_def Let_def read lift_Inr pbind_ret tcp_header_read(2)
    using assms(2) len by (simp add: vla_def readn_eq extractTcpHeader_def pbind_fault)
qed

section \<open>A UDP packet\<close>

text \<open>The text printed for a DNS message \<open>d\<close> with the header \<open>h\<close> and the labels \<open>ls\<close>.\<close>

definition question_end :: "byte list list \<Rightarrow> nat" where
  "question_end ls = length (takeWhile (\<lambda>c. c \<noteq> 0) (dotted ls)) + 2"

definition dns_message_text :: "dnsHeader \<Rightarrow> byte list list \<Rightarrow> cptr \<Rightarrow> string" where
  "dns_message_text h ls d =
     (let q = padd d 12; n = question_end ls in
      dns_text h @ (if qr h = 1 then ''DNS Response'' else []) @
      question_text (takeWhile (\<lambda>c. c \<noteq> 0) (dotted ls))
        (ucast (be2 (q ! n) (q ! (n + 1)))) (ucast (be2 (q ! (n + 2)) (q ! (n + 3)))))"

lemma processDNS_start:
  fixes w :: "'a world_scheme"
  assumes "allocs_ok 1 w" and "dns_fields d = Inr h"
  shows "processDNS d w = pbind (extractDnsQuestion (padd d 12)) call_printDnsQuestion
    (grown 1 (dns_text h @ (if qr h = 1 then ''DNS Response'' else [])) w)"
  by (simp add: processDNS_def pbind_step extractDnsHeader_run [OF assms(1)] assms(2)
      call_printDnsHeader_run [OF assms(2)])

lemma processDNS_run:
  fixes w :: "'a world_scheme"
  assumes "ample w" and "dns_fields d = Inr h" and "length d < 536870912"
    and "labels (padd d 12) = Some ls" and "question_end ls < 65536"
  shows "if 12 + question_end ls + 4 \<le> length d
    then \<exists>w'. processDNS d w = Inr ((), w') \<and> effect 3 (dns_message_text h ls d) w w'
    else processDNS d w = Inl OutOfBounds"
proof -
  let ?s = "dns_text h @ (if qr h = 1 then ''DNS Response'' else [])"
  define w1 where "w1 = grown 1 ?s w"
  have start: "processDNS d w = pbind (extractDnsQuestion (padd d 12)) call_printDnsQuestion w1"
    unfolding w1_def using assms by (intro processDNS_start ample_allocs_ok)
  have q: "if question_end ls + 4 \<le> length (padd d 12)
    then \<exists>dd w'. extractDnsQuestion (padd d 12) w1
           = Inr (question_at (padd d 12) (question_end ls) (map Some (dotted ls) @ Some 0 # dd), w')
         \<and> effect 2 [] w1 w'
    else extractDnsQuestion (padd d 12) w1 = Inl OutOfBounds"
    using assms by (intro extractDnsQuestion_run) (simp_all add: w1_def question_end_def)
  show ?thesis
  proof (cases "12 + question_end ls + 4 \<le> length d")
    case False
    then have "extractDnsQuestion (padd d 12) w1 = Inl OutOfBounds"
      using q by (simp split: if_splits)
    with False show ?thesis by (simp add: start pbind_fault)
  next
    case True
    then have "question_end ls + 4 \<le> length (padd d 12)" by simp
    with q obtain dd w2 where x: "extractDnsQuestion (padd d 12) w1
        = Inr (question_at (padd d 12) (question_end ls) (map Some (dotted ls) @ Some 0 # dd), w2)"
      "effect 2 [] w1 w2"
      by (auto simp only: if_True)
    let ?t = "question_text (takeWhile (\<lambda>c. c \<noteq> 0) (dotted ls))
        (ucast (be2 (padd d 12 ! question_end ls) (padd d 12 ! (question_end ls + 1))))
        (ucast (be2 (padd d 12 ! (question_end ls + 2)) (padd d 12 ! (question_end ls + 3))))"
    have "processDNS d w = Inr ((), grown 0 ?t w2)"
      unfolding start using x(1) by (rule pbind_step [THEN trans]) (rule call_printDnsQuestion_run)
    moreover have "effect (1 + 2 + 0) (?s @ [] @ ?t) w (grown 0 ?t w2)"
      using effect_trans [OF effect_trans [OF effect_grown [of 1 ?s w] x(2) [unfolded w1_def]]
          effect_grown [of 0 ?t w2]]
      by simp
    ultimately show ?thesis
      using True by (auto simp: dns_message_text_def Let_def numeral_3_eq_3)
  qed
qed

lemma processDNS_short: "allocs_ok 1 w \<Longrightarrow> length d < 12 \<Longrightarrow> processDNS d w = Inl OutOfBounds"
  by (simp add: processDNS_def pbind_fault extractDnsHeader_run dns.dec_short)

lemma processDNS_cut_off:
  fixes w :: "'a world_scheme"
  assumes "ample w" and "12 \<le> length d" and "length d < 536870912" and "labels (padd d 12) = None"
  shows "processDNS d w = Inl OutOfBounds"
proof -
  obtain h where h: "dns_fields d = Inr h" using dns.dec_succeeds_iff [of d] assms(2) by blast
  have "extractDnsQuestion (padd d 12) w1 = Inl OutOfBounds" if "ample w1" for w1 :: "'a world_scheme"
  proof -
    have "ample (grown 1 [] w1)" using that by simp
    then have "extractQueryName (padd d 12) (grown 1 [] w1) = Inl OutOfBounds"
      using assms by (intro extractQueryName_cut_off) simp_all
    then show ?thesis
      using that by (simp add: extractDnsQuestion_def pbind_def malloc_unchecked_run ample_allocs_ok)
  qed
  then have "pbind (extractDnsQuestion (padd d 12)) call_printDnsQuestion w1 = Inl OutOfBounds"
    if "ample w1" for w1 :: "'a world_scheme"
    using that by (simp add: pbind_fault)
  then show ?thesis
    using assms(1) by (simp add: processDNS_start [OF ample_allocs_ok h])
qed

lemma processUdpPacket_run:
  fixes w :: "'a world_scheme"
  assumes "allocs_ok 1 w"
  shows "processUdpPacket e i packet w =
    (case udp_fields (padd packet (e + i)) of
       Inl f \<Rightarrow> Inl f
     | Inr h \<Rightarrow> if udp_dstPort h = 53 then processDNS (padd packet (e + i + 8)) (grown 1 (''DNS Query'' @ nl) w)
               else Inr ((), grown 1 [] w))"
  by (simp add: processUdpPacket_def Let_def pbind_def extractUdpHeader_run [OF assms]
      split: sum.split)

section \<open>The dispatch\<close>

definition ether_type :: "cptr \<Rightarrow> nat" where
  "ether_type packet = 256 * unat (packet ! 12) + unat (packet ! 13)"

text \<open>What \<^verbatim>\<open>callback\<close> takes for the length of the IP header, if anything.\<close>

definition ip_length :: "cptr \<Rightarrow> nat option" where
  "ip_length packet =
     (if ether_type packet = 0x86DD then Some 40
      else if ether_type packet = 0x0800 then Some (4 * (unat (packet ! 14) mod 16))
      else None)"

lemma low_nibble: "unat (ucast b AND 0x0F :: u32) = unat b mod 16" for b :: byte
proof -
  have "unat (ucast b AND 0x0F :: u32) = unat (b AND 0x0F)"
    by (simp only: unat_word_bits) (simp add: bit_simps bit_eval eval_nat_numeral)
  also have "\<dots> = unat b mod 16"
    using unsigned_take_bit_eq [of 4 b, where ?'a = nat]
    by (simp add: take_bit_eq_mask [of 4 b] take_bit_eq_mod [of 4 "unat b"] mask_eq_exp_minus_1)
  finally show ?thesis .
qed

lemma less_u16: "256 * unat a + unat b < 65536" for a b :: byte
proof -
  have "unat a < 256" "unat b < 256" using unsigned_less [of a] unsigned_less [of b] by simp_all
  then show ?thesis by linarith
qed

lemma ether_type_eq: "(ucast (be2 a b) :: u16) = of_nat (256 * unat a + unat b)"
  using of_nat_unat [of "be2 a b"] unfolding be2_unat by (rule sym)

lemma ip_header_length_eq:
  assumes "15 \<le> length packet"
  shows "ip_header_length (ucast (be2 (packet ! 12) (packet ! 13))) (padd packet 14)
    = Inr (ip_length packet)"
proof -
  have less: "ether_type packet < 65536" by (simp only: ether_type_def less_u16)
  have eq: "(ucast (be2 (packet ! 12) (packet ! 13)) = (of_nat k :: u16)) = (ether_type packet = k)"
    if "k < 65536" for k
    unfolding ether_type_eq ether_type_def [symmetric]
    using less that by (simp add: word_unat_eq_iff unat_of_nat)
  have "(ucast (be2 (packet ! 12) (packet ! 13)) = ETHERTYPE_IPV6) = (ether_type packet = 0x86DD)"
    "(ucast (be2 (packet ! 12) (packet ! 13)) = ETHERTYPE_IP) = (ether_type packet = 0x0800)"
    using eq [of "0x86DD"] eq [of "0x0800"] by (simp_all add: ethertypes)
  then show ?thesis
    using assms by (simp add: ip_header_length_def ip_length_def run_simps low_nibble)
qed

lemma callback_short: "length packet < 34 \<Longrightarrow> callback showp hdr packet w = Inl OutOfBounds"
  by (cases "14 < length packet")
    (auto simp: callback_def run_simps Let_def pbind_def lift_def ip_header_length_def split: sum.split)

lemma callback_run:
  assumes "34 \<le> length packet"
  shows "callback showp hdr packet w =
    (if packet ! 23 = 17
     then case ip_length packet of None \<Rightarrow> Inl Uninit | Some n \<Rightarrow> processUdpPacket 14 n packet w
     else if packet ! 23 = 6
     then case ip_length packet of None \<Rightarrow> Inl Uninit | Some n \<Rightarrow> processTcpPacket showp 14 n hdr packet w
     else Inr ((), w))"
  using assms
  by (simp add: callback_def ip_header_length_eq run_simps Let_def use_int_def split: option.split)

section \<open>What a packet can do\<close>

text \<open>The only faults of a function that reads a packet of the wrong shape.\<close>

definition read_fault :: "fault + unit \<times> 'w world_scheme \<Rightarrow> bool" where
  "read_fault r \<longleftrightarrow> r = Inl OutOfBounds \<or> r = Inl Uninit \<or> r = Inl BadArraySize"

lemma processDNS_total:
  fixes w :: "'a world_scheme"
  assumes "ample w" and "length d < 65536"
  shows "processDNS d w = Inl OutOfBounds \<or>
    (\<exists>h ls w'. processDNS d w = Inr ((), w') \<and> effect 3 (dns_message_text h ls d) w w')"
proof (cases "12 \<le> length d")
  case False
  with assms show ?thesis by (simp add: processDNS_short ample_allocs_ok)
next
  case True
  then obtain h where h: "dns_fields d = Inr h" using dns.dec_succeeds_iff [of d] by blast
  show ?thesis
  proof (cases "labels (padd d 12)")
    case None
    with assms True show ?thesis by (simp add: processDNS_cut_off)
  next
    case (Some ls)
    have "question_end ls \<le> length (dotted ls) + 2"
      by (simp add: question_end_def length_takeWhile_le)
    with length_dotted_less [OF Some] assms(2) True have "question_end ls < 65536" by simp
    from processDNS_run [OF assms(1) h _ Some this] assms(2) show ?thesis
      by (cases "12 + question_end ls + 4 \<le> length d") auto
  qed
qed

lemma processUdpPacket_total:
  fixes w :: "'a world_scheme"
  assumes "ample w" and "length packet < 65536"
  shows "processUdpPacket e i packet w = Inl OutOfBounds \<or>
    (\<exists>s w'. processUdpPacket e i packet w = Inr ((), w') \<and> (effect 1 s w w' \<or> effect 4 s w w'))"
proof (cases "udp_fields (padd packet (e + i))")
  case (Inl f)
  then have "f = OutOfBounds"
    using udp.dec_short [of "padd packet (e + i)"] udp.dec_succeeds_iff [of "padd packet (e + i)"]
    by (cases "8 \<le> length (padd packet (e + i))") auto
  with Inl assms show ?thesis by (simp add: processUdpPacket_run ample_allocs_ok)
next
  case (Inr u)
  let ?d = "padd packet (e + i + 8)" and ?w = "grown 1 (''DNS Query'' @ nl) w"
  note run = processUdpPacket_run [OF ample_allocs_ok [OF assms(1)], of e i packet]
  show ?thesis
  proof (cases "udp_dstPort u = 53")
    case False
    with Inr show ?thesis by (auto simp: run intro!: exI [of _ "[]"])
  next
    case True
    have "ample ?w" "length ?d < 65536" using assms by simp_all
    from processDNS_total [OF this]
    consider "processDNS ?d ?w = Inl OutOfBounds"
      | s w' where "processDNS ?d ?w = Inr ((), w')" "effect 3 s ?w w'"
      by blast
    then show ?thesis
    proof cases
      case 1
      with True Inr show ?thesis by (simp add: run)
    next
      case 2
      with effect_trans [OF effect_grown [of 1 "''DNS Query'' @ nl" w] 2(2)] True Inr
      show ?thesis by (auto simp: run)
    qed
  qed
qed

lemma processTcpPacket_total:
  fixes w :: "'a world_scheme"
  assumes "allocs_ok 1 w" and "caplen hdr = of_nat (length packet)" and "length packet < 65536"
  shows "read_fault (processTcpPacket showp e i hdr packet w) \<or>
    (\<exists>s w'. processTcpPacket showp e i hdr packet w = Inr ((), w') \<and> effect 1 s w w')"
proof -
  let ?p = "padd packet (e + i)"
  consider "length ?p \<le> 12" | "12 < length ?p" "data_offset ?p < 20 \<or> length ?p < data_offset ?p"
    | "20 \<le> data_offset ?p" "data_offset ?p \<le> length ?p"
    by linarith
  then show ?thesis
  proof cases
    case 1
    then show ?thesis by (simp add: processTcpPacket_no_header read_fault_def)
  next
    case 2
    then show ?thesis
      using processTcpPacket_bad_length [OF assms(1) 2] by (auto simp: read_fault_def)
  next
    case 3
    then obtain h where h: "tcp_fields ?p = Inr h" using tcp.dec_succeeds_iff [of ?p] by auto
    have "e + i + data_offset ?p \<le> length packet" using 3 by simp
    moreover have "length packet < 2147483648" using assms(3) by simp
    ultimately have "processTcpPacket showp e i hdr packet w \<in> {Inl OutOfBounds,
        Inr ((), grown 1 (tcp_packet_text showp (e + i) (data_offset ?p) h packet) w)}"
      using processTcpPacket_run [OF assms(1,2) _ 3(1) _ h, of showp] by simp
    then show ?thesis
      using effect_grown [of 1 _ w] unfolding read_fault_def by blast
  qed
qed

end
