(* ===== verification/Sniff_Main.thy ===== *)
theory Sniff_Main
  imports Sniff
begin

text \<open>
  \<^verbatim>\<open>sniff\<close> of \<^verbatim>\<open>sniff/src/sniff.c\<close> and the \<^verbatim>\<open>main\<close> of \<^verbatim>\<open>sniff/src/demo.c\<close>: the command line, the
  prompt for the device, and the session with libpcap. The library is a parameter: a record of what
  its calls return.
\<close>

record io_world = world +
  err :: string
  stdin :: string

definition eputs :: "string \<Rightarrow> ('w io_world_scheme, unit) prog" where
  "eputs s = modify (\<lambda>w. w\<lparr>err := err w @ s\<rparr>)"

lemma pbind_eputs [simp]: "pbind (eputs s) f w = f () (w\<lparr>err := err w @ s\<rparr>)"
  by (simp add: eputs_def)

lemma eputs_run [simp]: "eputs s w = Inr ((), w\<lparr>err := err w @ s\<rparr>)"
  by (simp add: eputs_def modify_def)

section \<open>libpcap\<close>

text \<open>
  An error is the text the library reports. \<open>pcap_loop\<close> gives the packets the call hands to the
  callback, in order, for a session with or without a filter and for a count.
\<close>

record ('h, 'f) pcap_lib =
  pcap_lookupnet :: "string \<Rightarrow> string + u32 \<times> u32"
  pcap_open_live :: "string \<Rightarrow> nat \<Rightarrow> string + 'h"
  pcap_compile :: "'h \<Rightarrow> string \<Rightarrow> u32 \<Rightarrow> string + 'f"
  pcap_setfilter :: "'h \<Rightarrow> 'f \<Rightarrow> string + unit"
  pcap_loop :: "'h \<Rightarrow> 'f option \<Rightarrow> int \<Rightarrow> (pcap_pkthdr \<times> cptr) list"

definition BUFSIZ :: nat where "BUFSIZ = 8192"

section \<open>sniff\<close>

text \<open>\<^verbatim>\<open>inet_ntoa\<close> writes to a buffer of its own and never returns null.\<close>

definition convertIpFromNumberToText :: "u32 \<Rightarrow> string option" where
  "convertIpFromNumberToText ip = Some (inet_ntoa ip)"

definition put_address :: "string \<Rightarrow> u32 \<Rightarrow> ('w world_scheme, unit) prog" where
  "put_address label ip =
     (case convertIpFromNumberToText ip of None \<Rightarrow> ret () | Some t \<Rightarrow> puts (label @ t @ nl))"

text \<open>The part of the session after the device is open.\<close>

definition capture :: "('h, 'f) pcap_lib \<Rightarrow> (int \<Rightarrow> string) \<Rightarrow> 'h \<Rightarrow> 'f option \<Rightarrow> int \<Rightarrow> ('w world_scheme, unit) prog" where
  "capture lib showp descr fp num_captured_packets =
     pbind (for_each (pcap_loop lib descr fp num_captured_packets)
              (\<lambda>(pkthdr, packet). callback showp pkthdr packet)) (\<lambda>_.
     puts (nl @ ''Done with packet sniffing'' @ nl))"

definition sniff ::
    "('h, 'f) pcap_lib \<Rightarrow> (int \<Rightarrow> string) \<Rightarrow> string \<Rightarrow> int \<Rightarrow> string \<Rightarrow> int \<Rightarrow> ('w io_world_scheme, unit) prog" where
  "sniff lib showp dev filt protocol num_captured_packets =
     (case pcap_lookupnet lib dev of
        Inl e \<Rightarrow> eputs (''pcap_lookupnet error '' @ e @ nl)
      | Inr (pNet, pMask) \<Rightarrow>
          pbind (puts (''pNet: '' @ show_int (sint pNet) @ nl)) (\<lambda>_.
          pbind (put_address ''ip addr: '' pNet) (\<lambda>_.
          pbind (put_address ''subet mask: '' pMask) (\<lambda>_.
          case pcap_open_live lib dev BUFSIZ of
            Inl e \<Rightarrow> puts (''pcap_open_live() failed due to ['' @ e @ '']'' @ nl)
          | Inr descr \<Rightarrow>
              if filt \<noteq> 0
              then (case pcap_compile lib descr protocol pNet of
                      Inl e \<Rightarrow> eputs (''pcap_compile() failed: '' @ e @ '' '' @ nl)
                    | Inr fp \<Rightarrow>
                        (case pcap_setfilter lib descr fp of
                           Inl e \<Rightarrow> eputs (''pcap_setfilter() failed: '' @ e @ '' '' @ nl)
                         | Inr _ \<Rightarrow> capture lib showp descr (Some fp) num_captured_packets))
              else capture lib showp descr None num_captured_packets))))"

section \<open>main\<close>

text \<open>
  \<^verbatim>\<open>atoi\<close>: the value of the longest prefix that is a decimal number after white space, brought into
  the range of a 64-bit integer and truncated to an \<^verbatim>\<open>int\<close>, as the C library does it.
\<close>

definition is_space :: "char \<Rightarrow> bool" where
  "is_space c \<longleftrightarrow> of_char c \<in> {9, 10, 11, 12, 13, 32 :: nat}"

definition is_digit :: "char \<Rightarrow> bool" where
  "is_digit c \<longleftrightarrow> 48 \<le> (of_char c :: nat) \<and> (of_char c :: nat) \<le> 57"

definition digits_val :: "string \<Rightarrow> nat" where
  "digits_val s = foldl (\<lambda>n c. 10 * n + (of_char c - 48)) 0 (takeWhile is_digit s)"

definition atoi :: "string \<Rightarrow> int" where
  "atoi s =
     (let s = dropWhile is_space s;
          v = (case s of
                 [] \<Rightarrow> 0
               | c # t \<Rightarrow> if c = CHR ''-'' then - int (digits_val t)
                         else if c = CHR ''+'' then int (digits_val t)
                         else int (digits_val s)) in
      signed_take_bit 31 (max (- (2 ^ 63)) (min (2 ^ 63 - 1) v)))"

text \<open>
  \<^verbatim>\<open>fgets(buf, n, stdin)\<close>: the characters up to a newline, at most \<open>n - 1\<close> of them; at the end of the
  input the buffer keeps the empty string it was initialised with.
\<close>

fun upto_newline :: "nat \<Rightarrow> string \<Rightarrow> string" where
  "upto_newline 0 s = []"
| "upto_newline (Suc n) [] = []"
| "upto_newline (Suc n) (c # s) = c # (if c = CHR 0x0A then [] else upto_newline n s)"

definition fgets :: "nat \<Rightarrow> ('w io_world_scheme, string) prog" where
  "fgets n =
     pbind (gets stdin) (\<lambda>s.
     let line = upto_newline (n - 1) s in
     pbind (modify (\<lambda>w. w\<lparr>stdin := drop (length line) s\<rparr>)) (\<lambda>_. ret line))"

text \<open>A C string ends at its first zero.\<close>

definition c_string :: "string \<Rightarrow> string" where
  "c_string s = takeWhile (\<lambda>c. c \<noteq> CHR 0x00) s"

text \<open>
  \<^verbatim>\<open>dev_buff[strlen(dev_buff) - 1] = 0\<close>: for the empty string the index is \<^verbatim>\<open>SIZE_MAX\<close>.
\<close>

definition chop_last :: "string \<Rightarrow> fault + string" where
  "chop_last s = (if c_string s = [] then Inl BadWrite else Inr (butlast (c_string s)))"

definition demo_main :: "('h, 'f) pcap_lib \<Rightarrow> (int \<Rightarrow> string) \<Rightarrow> string list \<Rightarrow> ('w io_world_scheme, int) prog" where
  "demo_main lib showp argv =
     (if length argv \<noteq> 4
      then (case argv of
              [] \<Rightarrow> stop NullPtr
            | name # _ \<Rightarrow>
                pbind (puts (''Usage: ['' @ name @ ''] [filter] [protocol] [number-of-packets]'' @ nl))
                  (\<lambda>_. ret 0))
      else
        let filt = atoi (argv ! 1);
            protocol = argv ! 2;
            num_captured_packets = atoi (argv ! 3) in
        pbind (puts (''Enter the interface name on which you wanna run the packet '' @
                     ''sniffer <default: wlp0s20f3>: '')) (\<lambda>_.
        pbind (fgets 63) (\<lambda>line.
        pbind (lift (chop_last line)) (\<lambda>dev_buff.
        let dev = (if length dev_buff \<noteq> 0 then dev_buff else ''wlp0s20f3'') in
        pbind (puts (nl @ '' -- You opted for device ['' @ dev @ ''] to capture ['' @
                     show_int (atoi (argv ! 2)) @ ''] packets --'' @ nl)) (\<lambda>_.
        pbind (sniff lib showp dev filt protocol num_captured_packets) (\<lambda>_.
        ret 0))))))"

section \<open>A session\<close>

text \<open>A UDP packet that is not sent to the DNS port.\<close>

definition plain_udp :: "cptr \<Rightarrow> bool" where
  "plain_udp packet \<longleftrightarrow> 34 \<le> length packet \<and> packet ! 23 = 17 \<and>
     (case ip_length packet of
        None \<Rightarrow> False
      | Some n \<Rightarrow> (case udp_fields (padd packet (14 + n)) of Inl _ \<Rightarrow> False | Inr u \<Rightarrow> udp_dstPort u \<noteq> 53))"

lemma callback_plain_udp:
  "allocs_ok 1 w \<Longrightarrow> plain_udp packet \<Longrightarrow> callback showp hdr packet w = Inr ((), grown 1 [] w)"
  by (auto simp: plain_udp_def callback_run processUdpPacket_run split: option.splits sum.splits)

lemma callbacks_plain_udp:
  "ample w \<Longrightarrow> \<forall>(hdr, packet) \<in> set ps. plain_udp packet \<Longrightarrow>
   for_each ps (\<lambda>(hdr, packet). callback showp hdr packet) w = Inr ((), grown (length ps) [] w)"
proof (induction ps arbitrary: w)
  case Nil
  then show ?case by simp
next
  case (Cons x ps)
  obtain hdr packet where x: "x = (hdr, packet)" by (cases x)
  have "callback showp hdr packet w = Inr ((), grown 1 [] w)"
    using Cons.prems x by (intro callback_plain_udp ample_allocs_ok) auto
  with Cons.IH [of "grown 1 [] w"] Cons.prems x show ?case by (simp add: pbind_def)
qed

text \<open>What \<^verbatim>\<open>sniff\<close> prints about the network before it opens the device.\<close>

definition network_text :: "u32 \<Rightarrow> u32 \<Rightarrow> string" where
  "network_text pNet pMask =
     ''pNet: '' @ show_int (sint pNet) @ nl @ ''ip addr: '' @ inet_ntoa pNet @ nl @
     ''subet mask: '' @ inet_ntoa pMask @ nl"

lemma sniff_run:
  "sniff lib showp dev filt protocol n w =
     (case pcap_lookupnet lib dev of
        Inl e \<Rightarrow> eputs (''pcap_lookupnet error '' @ e @ nl) w
      | Inr (pNet, pMask) \<Rightarrow>
          (case pcap_open_live lib dev 8192 of
            Inl e \<Rightarrow> Inr ((), grown 0 (network_text pNet pMask @
              ''pcap_open_live() failed due to ['' @ e @ '']'' @ nl) w)
          | Inr descr \<Rightarrow>
              (if filt = 0 then capture lib showp descr None n
               else case pcap_compile lib descr protocol pNet of
                      Inl e \<Rightarrow> eputs (''pcap_compile() failed: '' @ e @ '' '' @ nl)
                    | Inr fp \<Rightarrow>
                        (case pcap_setfilter lib descr fp of
                           Inl e \<Rightarrow> eputs (''pcap_setfilter() failed: '' @ e @ '' '' @ nl)
                         | Inr _ \<Rightarrow> capture lib showp descr (Some fp) n))
              (grown 0 (network_text pNet pMask) w)))"
  by (auto simp: sniff_def put_address_def convertIpFromNumberToText_def BUFSIZ_def network_text_def
      split: sum.split prod.split)

text \<open>
  C29: \<^verbatim>\<open>sniff\<close> never touches a packet before every step of the setup has succeeded: when a library
  call fails, the session ends normally with the message of that call, on the stream the code prints
  it to, no further call is made, and nothing is allocated.
\<close>

theorem sniff_setup_errors:
  "(pcap_lookupnet lib dev = Inl e \<longrightarrow>
      sniff lib showp dev filt protocol n w =
        Inr ((), w\<lparr>err := err w @ ''pcap_lookupnet error '' @ e @ nl\<rparr>)) \<and>
   (pcap_lookupnet lib dev = Inr (net, nm) \<longrightarrow> pcap_open_live lib dev 8192 = Inl e \<longrightarrow>
      sniff lib showp dev filt protocol n w =
        Inr ((), w\<lparr>out := out w @ network_text net nm @ ''pcap_open_live() failed due to ['' @ e @ '']'' @ nl\<rparr>)) \<and>
   (pcap_lookupnet lib dev = Inr (net, nm) \<longrightarrow> pcap_open_live lib dev 8192 = Inr h \<longrightarrow> filt \<noteq> 0 \<longrightarrow>
    pcap_compile lib h protocol net = Inl e \<longrightarrow>
      sniff lib showp dev filt protocol n w =
        Inr ((), w\<lparr>out := out w @ network_text net nm,
                   err := err w @ ''pcap_compile() failed: '' @ e @ '' '' @ nl\<rparr>)) \<and>
   (pcap_lookupnet lib dev = Inr (net, nm) \<longrightarrow> pcap_open_live lib dev 8192 = Inr h \<longrightarrow> filt \<noteq> 0 \<longrightarrow>
    pcap_compile lib h protocol net = Inr f \<longrightarrow> pcap_setfilter lib h f = Inl e \<longrightarrow>
      sniff lib showp dev filt protocol n w =
        Inr ((), w\<lparr>out := out w @ network_text net nm,
                   err := err w @ ''pcap_setfilter() failed: '' @ e @ '' '' @ nl\<rparr>))"
  by (intro conjI impI) (simp_all add: sniff_run grown_def)

text \<open>
  C28: memory is never given back: a session whose packets are all UDP packets not sent to port 53
  completes and leaves one live block per packet.
\<close>

theorem sniff_leaks_udp_headers:
  assumes "ample w" and "pcap_lookupnet lib dev = Inr (net, netmask)" and "pcap_open_live lib dev 8192 = Inr h"
    and "\<forall>(hdr, packet) \<in> set (pcap_loop lib h None n). plain_udp packet"
  shows "\<exists>w'. sniff lib showp dev 0 protocol n w = Inr ((), w') \<and>
    live w' = live w + length (pcap_loop lib h None n) \<and>
    out w' = out w @ network_text net netmask @ nl @ ''Done with packet sniffing'' @ nl"
proof -
  let ?w = "grown 0 (network_text net netmask) w" and ?ps = "pcap_loop lib h None n"
  have "for_each ?ps (\<lambda>(hdr, packet). callback showp hdr packet) ?w = Inr ((), grown (length ?ps) [] ?w)"
    using assms(1,4) by (intro callbacks_plain_udp) simp_all
  then have "sniff lib showp dev 0 protocol n w =
      Inr ((), grown (length ?ps) (network_text net netmask @ nl @ ''Done with packet sniffing'' @ nl) w)"
    using assms(2,3) by (simp add: sniff_run capture_def pbind_def)
  then show ?thesis by simp
qed

section \<open>The command line\<close>

lemma pbind_fgets [simp]:
  "pbind (fgets n) f w =
     f (upto_newline (n - 1) (stdin w))
       (w\<lparr>stdin := drop (length (upto_newline (n - 1) (stdin w))) (stdin w)\<rparr>)"
  by (simp add: fgets_def pbind_def gets_def modify_def Let_def)

lemma upto_newline_line:
  "CHR 0x0A \<notin> set l \<Longrightarrow> length l < n \<Longrightarrow> upto_newline n (l @ CHR 0x0A # r) = l @ [CHR 0x0A]"
proof (induction l arbitrary: n)
  case Nil
  then show ?case by (cases n) simp_all
next
  case (Cons c l)
  then show ?case by (cases n) auto
qed

lemma c_string_no_zero: "CHR 0x00 \<notin> set s \<Longrightarrow> c_string s = s"
  unfolding c_string_def by (rule takeWhile_eq_all_conv [THEN iffD2]) auto

text \<open>The prompt, and what is printed once a device is chosen.\<close>

definition opted_text :: "string \<Rightarrow> int \<Rightarrow> string" where
  "opted_text dev n =
     ''Enter the interface name on which you wanna run the packet sniffer <default: wlp0s20f3>: '' @ nl @
     '' -- You opted for device ['' @ dev @ ''] to capture ['' @ show_int n @ ''] packets --'' @ nl"

text \<open>
  C30: with three arguments, \<^verbatim>\<open>main\<close> reads a line of at most 61 characters, and runs \<^verbatim>\<open>sniff\<close> on the
  device it names, or on the default device when the line is empty, with the filter switch and the
  count of the command line; the rest of the input is left unread. The number it announces is that of
  the second argument, the protocol, and not the count.
\<close>

theorem demo_main_device:
  assumes "stdin w = dev @ CHR 0x0A # rest" and "CHR 0x0A \<notin> set dev" and "CHR 0x00 \<notin> set dev"
    and "length dev \<le> 61"
  shows "demo_main lib showp [name, f, protocol, count] w =
    (let device = if dev = [] then ''wlp0s20f3'' else dev in
     pbind (sniff lib showp device (atoi f) protocol (atoi count)) (\<lambda>_. ret 0)
       (w\<lparr>stdin := rest, out := out w @ opted_text device (atoi protocol)\<rparr>))"
proof -
  have "upto_newline 62 (stdin w) = dev @ [CHR 0x0A]"
    using assms by (simp add: upto_newline_line)
  moreover have "c_string (dev @ [CHR 0x0A]) = dev @ [CHR 0x0A]"
    using assms(3) by (intro c_string_no_zero) simp
  ultimately show ?thesis
    using assms(1) by (simp add: demo_main_def Let_def chop_last_def grown_def opted_text_def)
qed

text \<open>
  At the end of the input, or when the line starts with a zero byte, \<^verbatim>\<open>main\<close> writes in front of
  its buffer.
\<close>

theorem demo_main_no_input:
  assumes "stdin w = [] \<or> hd (stdin w) = CHR 0x00"
  shows "demo_main lib showp [name, f, protocol, count] w = Inl BadWrite"
proof -
  have "c_string (upto_newline 62 (stdin w)) = []"
    using assms by (cases "stdin w") (simp_all add: c_string_def numeral_eq_Suc)
  then show ?thesis
    by (simp add: demo_main_def Let_def chop_last_def grown_def)
qed

text \<open>A library for the examples: every call succeeds, and two UDP packets arrive.\<close>

definition demo_packet :: cptr where
  "demo_packet = replicate 12 0 @ [0x08, 0x00, 0x45] @ replicate 8 0 @ [17] @ replicate 18 0"

definition demo_lib :: "(unit, unit) pcap_lib" where
  "demo_lib = \<lparr>pcap_lookupnet = (\<lambda>_. Inr (0x0000A8C0, 0x00FFFFFF)), pcap_open_live = (\<lambda>_ _. Inr ()),
     pcap_compile = (\<lambda>_ _ _. Inl ''syntax error''), pcap_setfilter = (\<lambda>_ _. Inr ()),
     pcap_loop = (\<lambda>_ _ _. replicate 2 (\<lparr>caplen = 42, pkt_len = 42\<rparr>, demo_packet))\<rparr>"

definition start_io :: io_world where
  "start_io = \<lparr>out = [], alloc_ok = (\<lambda>_. True), n_alloc = 0, live = 0, err = [],
     stdin = ''eth0'' @ CHR 0x0A # []\<rparr>"

lemma plain_demo_packet: "plain_udp demo_packet"
  by (simp add: plain_udp_def demo_packet_def ip_length_def ether_type_def nth_append padd_def
      udp_fields_def run_simps be2_def)

theorem sniff_setup_errors_witness:
  "sniff demo_lib (\<lambda>_. []) ''eth0'' 1 ''udp'' 2 start_io =
    Inr ((), start_io\<lparr>out := out start_io @ network_text 0x0000A8C0 0x00FFFFFF,
      err := err start_io @ ''pcap_compile() failed: '' @ ''syntax error'' @ '' '' @ nl\<rparr>)"
  by (rule sniff_setup_errors [THEN conjunct2, THEN conjunct2, THEN conjunct1, rule_format])
    (simp_all add: demo_lib_def)

theorem sniff_leaks_udp_headers_witness:
  "\<exists>w'. sniff demo_lib (\<lambda>_. []) ''eth0'' 0 ''udp'' 2 start_io = Inr ((), w') \<and>
    live w' = live start_io + length (pcap_loop demo_lib () None 2) \<and>
    out w' = out start_io @ network_text 0x0000A8C0 0x00FFFFFF @ nl @ ''Done with packet sniffing'' @ nl"
  by (rule sniff_leaks_udp_headers)
    (simp_all add: demo_lib_def plain_demo_packet ample_def start_io_def)

theorem demo_main_device_witness:
  "demo_main demo_lib (\<lambda>_. []) [''demo'', ''0'', ''udp'', ''2''] start_io =
    (let device = if ''eth0'' = [] then ''wlp0s20f3'' else ''eth0'' in
     pbind (sniff demo_lib (\<lambda>_. []) device (atoi ''0'') ''udp'' (atoi ''2'')) (\<lambda>_. ret 0)
       (start_io\<lparr>stdin := [], out := out start_io @ opted_text device (atoi ''udp'')\<rparr>))"
  by (rule demo_main_device) (simp_all add: start_io_def)

theorem demo_main_no_input_witness:
  "demo_main demo_lib (\<lambda>_. []) [''demo'', ''0'', ''udp'', ''2''] (start_io\<lparr>stdin := []\<rparr>) = Inl BadWrite"
  by (rule demo_main_no_input) simp

end
