(* ===== verification/Device_List.thy ===== *)
theory Device_List
  imports Sniff_Main
begin

text \<open>
  \<^verbatim>\<open>list_deivices/list_device.c\<close>: the list of the devices that libpcap finds. What the library reports
  is a parameter: the text of its error, or the devices of its linked list in order.
\<close>

record pcap_if =
  dev_name :: string
  description :: "string option"

definition listing :: "pcap_if \<Rightarrow> string" where
  "listing d =
     (case description d of
        Some t \<Rightarrow> ''('' @ t @ '')'' @ nl
      | None \<Rightarrow> ''Sorry. No description available for this device'' @ nl)"

text \<open>\<^verbatim>\<open>++countDev\<close> on a signed integer.\<close>

definition next_count :: "int \<Rightarrow> fault + int" where
  "next_count n = (if n < 2147483647 then Inr (n + 1) else Inl SignedOverflow)"

definition list_one :: "int \<Rightarrow> pcap_if \<Rightarrow> ('w world_scheme, int) prog" where
  "list_one countDev d =
     pbind (lift (next_count countDev)) (\<lambda>countDev.
     pbind (puts (show_int countDev @ ''. '' @ dev_name d)) (\<lambda>_.
     pbind (puts (listing d)) (\<lambda>_.
     ret countDev)))"

definition listDevices :: "string + pcap_if list \<Rightarrow> ('w io_world_scheme, unit status) prog" where
  "listDevices found =
     (case found of
        Inl errbuf \<Rightarrow> pbind (eputs (''Error in pcap_findalldevs: '' @ errbuf @ nl)) (\<lambda>_. die 1)
      | Inr alldevs \<Rightarrow>
          pbind (puts (nl @ ''Here is a list of available devices on your system:'' @ nl @ nl)) (\<lambda>_.
          pbind (pfold list_one alldevs 0) (\<lambda>_.
          ret (Value ()))))"

definition device_main :: "string + pcap_if list \<Rightarrow> ('w io_world_scheme, int status) prog" where
  "device_main found = xbind (listDevices found) (\<lambda>_. ret (Value 0))"

section \<open>The listing\<close>

text \<open>The lines for devices that are numbered from \<open>k + 1\<close> on.\<close>

fun numbered :: "nat \<Rightarrow> pcap_if list \<Rightarrow> string" where
  "numbered k [] = []"
| "numbered k (d # ds) = show_dec (k + 1) @ ''. '' @ dev_name d @ listing d @ numbered (k + 1) ds"

lemma list_one_run:
  "int k < 2147483647 \<Longrightarrow>
     list_one (int k) d w = Inr (int (k + 1), grown 0 (show_dec (k + 1) @ ''. '' @ dev_name d @ listing d) w)"
  by (simp add: list_one_def next_count_def show_int_def nat_add_distrib)

lemma list_all_run:
  "k + length ds \<le> 2147483647 \<Longrightarrow>
     pfold list_one ds (int k) w = Inr (int (k + length ds), grown 0 (numbered k ds) w)"
proof (induction ds arbitrary: k w)
  case Nil
  then show ?case by simp
next
  case (Cons d ds)
  then have "k + 1 + length ds \<le> 2147483647" "int k < 2147483647" by simp_all
  then show ?case
    using Cons.IH [of "k + 1"] by (simp add: pbind_step [OF list_one_run] del: of_nat_add)
qed

section \<open>Properties\<close>

text \<open>
  C40: the program lists every device the library reports, once and in order, numbered from 1, with its
  description or a line that says there is none, and returns 0; when the library fails it prints the
  error on the error stream and ends with status 1, and lists nothing.
\<close>

theorem device_main_lists:
  "(length devs \<le> 2147483647 \<longrightarrow> device_main (Inr devs) w =
      Inr (Value 0, w\<lparr>out := out w @ nl @ ''Here is a list of available devices on your system:'' @ nl @ nl @
        numbered 0 devs\<rparr>)) \<and>
   device_main (Inl e) w =
      Inr (Exits 1, w\<lparr>err := err w @ ''Error in pcap_findalldevs: '' @ e @ nl\<rparr>)"
proof (intro conjI impI)
  let ?t = "nl @ ''Here is a list of available devices on your system:'' @ nl @ nl"
  assume "length devs \<le> 2147483647"
  then have "pfold list_one devs 0 (grown 0 ?t w) = Inr (int (length devs), grown 0 (numbered 0 devs) (grown 0 ?t w))"
    using list_all_run [of 0 devs "grown 0 ?t w"] by simp
  then have "listDevices (Inr devs) w = Inr (Value (), grown 0 (numbered 0 devs) (grown 0 ?t w))"
    by (simp only: listDevices_def sum.case pbind_puts) (simp add: pbind_step)
  then show "device_main (Inr devs) w = Inr (Value 0, w\<lparr>out := out w @ nl @
      ''Here is a list of available devices on your system:'' @ nl @ nl @ numbered 0 devs\<rparr>)"
    by (simp add: device_main_def xbind_run grown_def)
next
  show "device_main (Inl e) w = Inr (Exits 1, w\<lparr>err := err w @ ''Error in pcap_findalldevs: '' @ e @ nl\<rparr>)"
    by (simp add: device_main_def listDevices_def xbind_run die_def)
qed

theorem device_main_lists_witness:
  "device_main (Inr [\<lparr>dev_name = ''lo'', description = None\<rparr>]) start_io =
     Inr (Value 0, start_io\<lparr>out := out start_io @ nl @ ''Here is a list of available devices on your system:'' @ nl @ nl @
        numbered 0 [\<lparr>dev_name = ''lo'', description = None\<rparr>]\<rparr>)"
proof -
  have "length [\<lparr>dev_name = ''lo'', description = None\<rparr>] \<le> 2147483647" by simp
  with device_main_lists [of "[\<lparr>dev_name = ''lo'', description = None\<rparr>]" start_io] show ?thesis by blast
qed

end
