(* ===== verification/Certificate.thy ===== *)
theory Certificate
  imports Sniff_Main
begin

text \<open>
  \<^verbatim>\<open>ssl/src/decryption.c\<close>: a PEM file is read into memory and the certificate in it printed. The file
  system and OpenSSL are parameters; the state counts the blocks, files, BIOs and certificates held.
\<close>

record ssl_world = io_world +
  open_files :: nat
  bios :: nat
  certs :: nat

text \<open>
  \<open>file_at\<close> is the contents of a file that can be opened, \<open>ftell_at\<close> the size that \<^verbatim>\<open>ftell\<close> reports for it,
  -1 when the file cannot be positioned, as a pipe; \<open>pem_read\<close> parses and \<open>x509_print\<close> prints.
\<close>

record 'x ssl_lib =
  prog_name :: string
  env :: "string \<Rightarrow> string option"
  file_at :: "string \<Rightarrow> byte list option"
  ftell_at :: "string \<Rightarrow> int"
  fresh_byte :: "nat \<Rightarrow> byte"
  bio_new_ok :: "byte list \<Rightarrow> bool"
  pem_read :: "byte list \<Rightarrow> 'x option"
  x509_print :: "'x \<Rightarrow> string"

definition decode_ssl_content :: "'x ssl_lib \<Rightarrow> byte list \<Rightarrow> ('w ssl_world_scheme, unit) prog" where
  "decode_ssl_content lib cert_bio =
     (case pem_read lib cert_bio of
        None \<Rightarrow> eputs (''Error reading certificate'' @ nl)
      | Some x509 \<Rightarrow>
          pbind (modify (\<lambda>w. w\<lparr>certs := certs w + 1\<rparr>)) (\<lambda>_.
          pbind (puts (x509_print lib x509)) (\<lambda>_.
          modify (\<lambda>w. w\<lparr>certs := certs w - 1\<rparr>))))"

text \<open>
  \<^verbatim>\<open>malloc\<close> of a \<^verbatim>\<open>size_t\<close>: more than \<^verbatim>\<open>PTRDIFF_MAX\<close> bytes are never there.
\<close>

definition malloc_size :: "nat \<Rightarrow> ('w world_scheme, bool) prog" where
  "malloc_size n w =
     (if n < 2 ^ 63 \<and> alloc_ok w (n_alloc w)
      then Inr (True, w\<lparr>n_alloc := n_alloc w + 1, live := live w + 1\<rparr>)
      else Inr (False, w\<lparr>n_alloc := n_alloc w + 1\<rparr>))"

definition free_block :: "('w world_scheme, unit) prog" where
  "free_block = modify (\<lambda>w. w\<lparr>live := live w - 1\<rparr>)"

definition fclose_file :: "('w ssl_world_scheme, unit) prog" where
  "fclose_file = modify (\<lambda>w. w\<lparr>open_files := open_files w - 1\<rparr>)"

text \<open>\<^verbatim>\<open>file_size + 1\<close> on an \<^verbatim>\<open>int\<close>, as a \<^verbatim>\<open>size_t\<close>.\<close>

definition block_size :: "int \<Rightarrow> fault + nat" where
  "block_size file_size =
     (if file_size < 2147483647 then Inr (nat ((file_size + 1) mod 2 ^ 64)) else Inl SignedOverflow)"

text \<open>
  \<^verbatim>\<open>fread\<close> of \<open>file_size\<close> bytes into a block of that size and one, and the zero behind them. What the
  file does not fill keeps the bytes of the fresh block. A negative size writes outside the block.
\<close>

definition fill_block :: "(nat \<Rightarrow> byte) \<Rightarrow> int \<Rightarrow> byte list \<Rightarrow> fault + byte list" where
  "fill_block fresh file_size contents =
     (if file_size < 0 then Inl BadWrite
      else let got = take (nat file_size) contents in
           Inr (got @ map fresh [length got..<nat file_size] @ [0]))"

definition ssl_main :: "'x ssl_lib \<Rightarrow> ('w ssl_world_scheme, int status) prog" where
  "ssl_main lib =
     (case env lib ''FILE'' of
        None \<Rightarrow>
          pbind (eputs (prog_name lib @ '': '' @ ''ERROR: failed to load file from environment'' @ nl)) (\<lambda>_. die 1)
      | Some fileName \<Rightarrow>
          (case file_at lib fileName of
             None \<Rightarrow> pbind (eputs ''Error reading pem file'') (\<lambda>_. ret (Value 1))
           | Some contents \<Rightarrow>
               pbind (modify (\<lambda>w. w\<lparr>open_files := open_files w + 1\<rparr>)) (\<lambda>_.
               let file_size = signed_take_bit 31 (ftell_at lib fileName) in
               pbind (lift (block_size file_size)) (\<lambda>n.
               pbind (malloc_size n) (\<lambda>ok.
               if \<not> ok
               then pbind (eputs ''Error malloc for file content'') (\<lambda>_.
                    pbind fclose_file (\<lambda>_.
                    ret (Value 1)))
               else
                 pbind (lift (fill_block (fresh_byte lib) file_size contents)) (\<lambda>file_content.
                 pbind fclose_file (\<lambda>_.
                 let mem = take (nat file_size) file_content in
                 if \<not> bio_new_ok lib mem
                 then pbind (eputs ''Error creating mem_bio'') (\<lambda>_.
                      pbind free_block (\<lambda>_.
                      ret (Value 1)))
                 else
                   pbind (modify (\<lambda>w. w\<lparr>bios := bios w + 1\<rparr>)) (\<lambda>_.
                   pbind (decode_ssl_content lib mem) (\<lambda>_.
                   pbind (modify (\<lambda>w. w\<lparr>bios := bios w - 1\<rparr>)) (\<lambda>_.
                   pbind free_block (\<lambda>_.
                   ret (Value 0))))))))))))"

section \<open>What is held\<close>

definition held :: "'w ssl_world_scheme \<Rightarrow> nat list" where
  "held w = [live w, open_files w, bios w, certs w]"

lemma held_messages [simp]: "held (w\<lparr>err := s\<rparr>) = held w" "held (grown 0 t w) = held w"
  by (simp_all add: held_def grown_def)

text \<open>The steps of \<^verbatim>\<open>main\<close>, run one after the other.\<close>

lemma pbind_lift: "pbind (lift r) f w = (case r of Inl e \<Rightarrow> Inl e | Inr a \<Rightarrow> f a w)"
  by (simp add: pbind_def lift_def split: sum.split)

lemma pbind_malloc_size:
  "pbind (malloc_size n) f w =
     (if n < 2 ^ 63 \<and> alloc_ok w (n_alloc w) then f True (w\<lparr>n_alloc := n_alloc w + 1, live := live w + 1\<rparr>)
      else f False (w\<lparr>n_alloc := n_alloc w + 1\<rparr>))"
  by (simp add: pbind_def malloc_size_def)

lemma pbind_release:
  "pbind free_block f w = f () (w\<lparr>live := live w - 1\<rparr>)"
  "pbind fclose_file g v = g () (v\<lparr>open_files := open_files v - 1\<rparr>)"
  by (simp_all add: free_block_def fclose_file_def)

lemma decode_run:
  "pbind (decode_ssl_content lib bio) f w =
     (case pem_read lib bio of
        None \<Rightarrow> f () (w\<lparr>err := err w @ ''Error reading certificate'' @ nl\<rparr>)
      | Some x \<Rightarrow> f () ((grown 0 (x509_print lib x) (w\<lparr>certs := certs w + 1\<rparr>))\<lparr>certs := certs w\<rparr>))"
  by (cases "pem_read lib bio") (simp_all add: decode_ssl_content_def pbind_assoc grown_def)

lemmas ssl_run = pbind_lift pbind_malloc_size pbind_release decode_run

section \<open>Properties\<close>

text \<open>
  C23: every way through \<^verbatim>\<open>main\<close> that returns or exits gives back what it has acquired: the block, the
  file, the BIO and the certificate, whether the file is missing, memory runs out, the BIO cannot be
  made or the certificate cannot be parsed.
\<close>

theorem ssl_main_releases:
  assumes "ssl_main lib w = Inr (r, w')"
  shows "held w' = held w"
proof (cases "env lib ''FILE''")
  case None
  with assms show ?thesis by (auto simp: ssl_main_def die_def)
next
  case named: (Some fileName)
  show ?thesis
  proof (cases "file_at lib fileName")
    case None
    with assms named show ?thesis by (auto simp: ssl_main_def)
  next
    case (Some contents)
    from assms named Some show ?thesis
      unfolding ssl_main_def Let_def
      by (auto simp: ssl_run held_def grown_def split: sum.splits if_splits option.splits)
  qed
qed

text \<open>
  C38: for a file that can be opened and whose reported size is its size, below \<open>2^31 - 1\<close>, and enough memory,
  \<^verbatim>\<open>main\<close> hands exactly the bytes of the file to the parser and prints the certificate it finds; without one
  it only reports an error. The exit status is 0 in both cases.
\<close>

theorem ssl_main_decodes:
  assumes "env lib ''FILE'' = Some name" and "file_at lib name = Some contents"
    and "ftell_at lib name = int (length contents)" and "length contents < 2147483647"
    and "alloc_ok w (n_alloc w)" and "bio_new_ok lib contents"
  shows "\<exists>w'. ssl_main lib w = Inr (Value 0, w') \<and>
    (case pem_read lib contents of
       Some x \<Rightarrow> out w' = out w @ x509_print lib x \<and> err w' = err w
     | None \<Rightarrow> out w' = out w \<and> err w' = err w @ ''Error reading certificate'' @ nl)"
proof -
  let ?n = "int (length contents)"
  have size: "signed_take_bit 31 ?n = ?n" using assms(4) by (simp add: signed_take_bit_int_eq_self)
  have block: "block_size ?n = Inr (length contents + 1)"
    using assms(4) by (simp add: block_size_def nat_add_distrib)
  have bytes: "fill_block fresh ?n contents = Inr (contents @ [0])" for fresh
    by (simp add: fill_block_def)
  show ?thesis
    using assms unfolding ssl_main_def Let_def
    by (cases "pem_read lib contents") (simp_all add: ssl_run size block bytes grown_def)
qed

text \<open>
  C39: a file whose size cannot be determined, as a pipe, makes \<^verbatim>\<open>main\<close> allocate nothing and write in front
  of the block.
\<close>

theorem ssl_main_no_size:
  assumes "env lib ''FILE'' = Some name" and "file_at lib name = Some contents" and "ftell_at lib name = -1"
    and "alloc_ok w (n_alloc w)"
  shows "ssl_main lib w = Inl BadWrite"
proof -
  have size: "signed_take_bit 31 (-1 :: int) = -1" by simp
  have block: "block_size (-1) = Inr 0" by (simp add: block_size_def)
  show ?thesis
    using assms unfolding ssl_main_def Let_def
    by (simp add: ssl_run size block fill_block_def)
qed

text \<open>Examples.\<close>

definition demo_ssl :: "string ssl_lib" where
  "demo_ssl = \<lparr>prog_name = ''decrypt'', env = (\<lambda>_. Some ''a.pem''), file_at = (\<lambda>_. Some [80, 69, 77]),
     ftell_at = (\<lambda>_. 3), fresh_byte = (\<lambda>_. 0), bio_new_ok = (\<lambda>_. True),
     pem_read = (\<lambda>bs. if bs = [80, 69, 77] then Some ''subject'' else None), x509_print = (\<lambda>x. x)\<rparr>"

definition start_ssl :: ssl_world where
  "start_ssl = \<lparr>out = [], alloc_ok = (\<lambda>_. True), n_alloc = 0, live = 0, err = [], stdin = [],
     open_files = 0, bios = 0, certs = 0\<rparr>"

theorem ssl_main_decodes_witness:
  "\<exists>w'. ssl_main demo_ssl start_ssl = Inr (Value 0, w') \<and> out w' = ''subject''"
  using ssl_main_decodes [of demo_ssl "''a.pem''" "[80, 69, 77]" start_ssl]
  by (auto simp: demo_ssl_def start_ssl_def)

theorem ssl_main_no_size_witness:
  "ssl_main (demo_ssl\<lparr>ftell_at := \<lambda>_. -1\<rparr>) start_ssl = Inl BadWrite"
  by (rule ssl_main_no_size) (simp_all add: demo_ssl_def start_ssl_def)

theorem ssl_main_releases_witness:
  "\<exists>w'. ssl_main (demo_ssl\<lparr>file_at := \<lambda>_. None\<rparr>) start_ssl = Inr (Value 1, w') \<and> held w' = [0, 0, 0, 0]"
proof -
  obtain w' where w': "ssl_main (demo_ssl\<lparr>file_at := \<lambda>_. None\<rparr>) start_ssl = Inr (Value 1, w')"
    by (simp add: ssl_main_def demo_ssl_def)
  with ssl_main_releases [OF this] show ?thesis by (simp add: held_def start_ssl_def)
qed

end
