(* ===== verification/Spec2Isabelle.thy ===== *)
theory Spec2Isabelle
  imports Afp_Main Afp_Agree Device_List Certificate
begin

text \<open>
  Packet capture in C: a verification library for the programs of this repository.

  The programs.
  \<^item> \<^verbatim>\<open>sniff\<close> captures with libpcap. \<^verbatim>\<open>demo.c\<close> reads the device from the terminal and calls \<^verbatim>\<open>sniff\<close> of
    \<^verbatim>\<open>sniff.c\<close>, which opens a session and hands every packet to \<^verbatim>\<open>callback\<close>. That decodes the Ethernet,
    TCP, UDP and DNS headers with the extractors of \<^verbatim>\<open>ethernet.c\<close>, \<^verbatim>\<open>tcp.c\<close>, \<^verbatim>\<open>udp.c\<close> and \<^verbatim>\<open>dns.c\<close> and
    prints them.
  \<^item> \<^verbatim>\<open>sniff_afpacket\<close> captures with a packet socket of the kernel. \<^verbatim>\<open>main.c\<close> runs one of the capture
    functions of \<^verbatim>\<open>source-af-packet.c\<close> until a signal clears \<^verbatim>\<open>running\<close>. They read packets from a ring of
    64 mapped frames or with \<^verbatim>\<open>recvfrom\<close>, count them, log TCP packets to a file and report statistics
    (\<^verbatim>\<open>stats.c\<close>).
  \<^item> \<^verbatim>\<open>list_deivices\<close> lists the devices libpcap finds, and \<^verbatim>\<open>ssl\<close> prints the certificate of a PEM file.

  The theories, in the order in which they build on each other.
  \<^item> \<open>Net_Prelude\<close>: bytes and words, the faults a C function can end in, pointers as the bytes up to the
    end of their object, programs as functions from a state to a fault or a value and a state, processes
    that exit, the conversions of \<^verbatim>\<open>printf\<close>. \<open>Bit_Layout\<close>: bit fields in network order, the reference for
    the layouts of the RFCs. \<open>Utils\<close>: \<^verbatim>\<open>utils.c\<close> and the byte order functions of the C library.
  \<^item> \<open>Udp_Header\<close>, \<open>Tcp_Header\<close>, \<open>Ethernet_Frame\<close>, \<open>Dns_Header\<close>, \<open>Dns_Question\<close>: one for each pair of a
    header and a source file. Each states what its extractor reads, mostly as the inverse of an encoding.
    \<open>Dns_Question\<close> has the growing buffer of \<^verbatim>\<open>extractQueryName\<close>, for names below \<open>2^29\<close> bytes, where the
    doubling of an \<^verbatim>\<open>int\<close> cannot overflow.
  \<^item> \<open>Sniff\<close>: the handlers of \<^verbatim>\<open>sniff.c\<close> up to \<^verbatim>\<open>callback\<close>. \<open>Sniff_Main\<close>: the session and \<^verbatim>\<open>demo.c\<close>. The
    properties of the callback on whole packets are in this theory.
  \<^item> \<open>Afp_Log\<close>: the globals of \<^verbatim>\<open>source-af-packet.c\<close>, its log file and \<^verbatim>\<open>PrintData\<close>. \<open>Afp_Print\<close>: the
    printers of the headers and those of TCP, UDP and ICMP packets, with every outcome of the latter:
    \<open>dumped\<close> says how the dumps they have in common can end.
    \<open>Afp_Process\<close>: \<^verbatim>\<open>ProcessPacket\<close> and the counters. \<open>Afp_Stats\<close>: \<^verbatim>\<open>stats.c\<close>.
  \<^item> \<open>Afp_Loop\<close>: \<^verbatim>\<open>running\<close>, the signal handler, and the loop \<^verbatim>\<open>while(running)\<close> against a script of its
    environment. \<open>Afp_Ring\<close>: the ring, the bodies of the two loops over it, the ring as a queue, and
    the steps of kernel and program. Its locale \<open>ring_consumer\<close> is what a body promises the queue, and
    \<open>ring_drainer\<close> extends it by progress; both are interpreted on the two bodies. \<open>Afp_Agree\<close>: the
    loops are equivalent when \<^verbatim>\<open>poll\<close> reports an event exactly when the current frame is ready.
  \<^item> \<open>Afp_Socket\<close>: the system calls and the functions that set up a socket. \<open>Afp_Capture\<close>: the two
    capture functions over the ring. \<open>Afp_Poll\<close>: the one that copies. \<open>Afp_Main\<close>: \<^verbatim>\<open>main\<close>.
  \<^item> \<open>Device_List\<close> and \<open>Certificate\<close>: the two small programs.

  State. \<open>world\<close> holds the output and the allocator; the records that extend it add the streams and the
  input (\<open>io_world\<close>), the globals of the second program (\<open>afp_world\<close>), its flag (\<open>run_world\<close>), the mapped
  memory (\<open>ring_world\<close>), the sockets, mappings and log files it holds (\<open>cap_world\<close>), and the resources of the
  certificate printer (\<open>ssl_world\<close>). A local variable of a C function is a variable of the definition,
  the locals of a loop are a record. The state is lost at a fault, and kept when a process exits.

  Bounds. A captured packet is less than 64 KiB. 134 bytes are 14 of Ethernet and at most 60 each of IP and
  TCP: a buffer of that size makes every header access of \<^verbatim>\<open>ProcessPacket\<close> safe. An \<^verbatim>\<open>int\<close> is an integer
  between \<open>INT_MIN\<close> and \<open>INT_MAX\<close>, and an operation that leaves that range is a fault; the theorems about the
  packet printers hold for every \<open>Size\<close> among these. The counters are \<^verbatim>\<open>int\<close>s, so
  the theorems about sessions ask that fewer than \<open>2^31\<close> packets have been counted. A loop that waits for the
  environment runs against a finite script and is \<open>Still_running\<close> when the script is over; \<open>main_stops\<close>
  shows that a stop signal in the script is enough for it not to be. All other loops are total.

  Parameters. libpcap, OpenSSL, the system calls, the clock, the order of the packets, and the arithmetic and
  the printing of \<^verbatim>\<open>double\<close> are arguments of the definitions, of which no more is assumed than that each
  call gives one of the results its manual lists.

  A pointer is checked when it is used: one that is moved past the end of its object and not read is not a
  fault of the model.

  Not modelled: the order of the accesses to the ring within one iteration against the kernel, which acts
  and raises signals between the iterations only; the waiting of \<^verbatim>\<open>usleep\<close> and \<^verbatim>\<open>poll\<close>; the contents of
  the log file once a fault has ended the process; the one-line file \<^verbatim>\<open>sniff/tcp.c\<close>; build files and scripts.
\<close>

section \<open>The packet sniffer\<close>

text \<open>
  C13: \<^verbatim>\<open>callback\<close> on every packet. A frame of fewer than 34 bytes is an out-of-bounds read,
  whatever it carries. Otherwise byte 23 alone decides: 17 goes to the UDP and 6 to the TCP code with
  the length of the IP header (40 for IPv6, four times the low nibble for IPv4), any other value is
  ignored. With another Ethernet type the uninitialised header length is used.
\<close>

theorem callback_dispatch:
  "callback showp hdr packet w =
    (if length packet < 34 then Inl OutOfBounds
     else if packet ! 23 = 17
     then case ip_length packet of None \<Rightarrow> Inl Uninit | Some n \<Rightarrow> processUdpPacket 14 n packet w
     else if packet ! 23 = 6
     then case ip_length packet of None \<Rightarrow> Inl Uninit | Some n \<Rightarrow> processTcpPacket showp 14 n hdr packet w
     else Inr ((), w))"
  by (cases "length packet < 34") (simp_all add: callback_short callback_run)

text \<open>
  C1: with enough memory, a captured packet of less than 64 KiB, of any contents, either is read
  out of bounds, uses the uninitialised header length, declares an empty array, or is processed and
  leaves no block, one block (the header of a TCP or UDP packet) or four blocks (a DNS query) behind.
  No write out of bounds, no overflow and no null pointer is possible.
\<close>

theorem callback_outcomes:
  assumes "ample w" and "caplen hdr = of_nat (length packet)" and "length packet < 65536"
  shows "read_fault (callback showp hdr packet w) \<or>
    (\<exists>s w'. callback showp hdr packet w = Inr ((), w') \<and>
       (effect 0 s w w' \<or> effect 1 s w w' \<or> effect 4 s w w'))"
proof (cases "length packet < 34 \<or> (packet ! 23 \<noteq> 17 \<and> packet ! 23 \<noteq> 6) \<or> ip_length packet = None")
  case True
  then show ?thesis
    by (cases "length packet < 34")
      (auto simp: callback_short callback_run read_fault_def intro!: exI [of _ "[]"])
next
  case False
  then obtain n where n: "ip_length packet = Some n" by auto
  have udp: "processUdpPacket 14 n packet w = Inl OutOfBounds \<or>
      (\<exists>s w'. processUdpPacket 14 n packet w = Inr ((), w') \<and> (effect 1 s w w' \<or> effect 4 s w w'))"
    using assms by (intro processUdpPacket_total)
  have tcp: "read_fault (processTcpPacket showp 14 n hdr packet w) \<or>
      (\<exists>s w'. processTcpPacket showp 14 n hdr packet w = Inr ((), w') \<and> effect 1 s w w')"
    using assms by (intro processTcpPacket_total ample_allocs_ok)
  show ?thesis
  proof (cases "packet ! 23 = 17")
    case True
    with False n udp show ?thesis by (auto simp: callback_run read_fault_def)
  next
    case not_udp: False
    with False n have "callback showp hdr packet w = processTcpPacket showp 14 n hdr packet w"
      by (simp add: callback_run)
    with tcp show ?thesis by auto
  qed
qed

text \<open>An Ethernet and an IPv4 header without options, for the examples.\<close>

definition ipv4_frame :: "byte \<Rightarrow> byte list \<Rightarrow> byte list" where
  "ipv4_frame proto payload =
     replicate 12 0 @ [0x08, 0x00] @ [0x45] @ replicate 8 0 @ [proto] @ replicate 10 0 @ payload"

lemma length_ipv4_frame: "length (ipv4_frame k q) = 34 + length q"
  by (simp add: ipv4_frame_def)

lemma ipv4_frame_fields:
  "ipv4_frame k q ! 23 = k" "ip_length (ipv4_frame k q) = Some 20" "padd (ipv4_frame k q) 34 = q"
  by (simp_all add: ipv4_frame_def ip_length_def ether_type_def nth_append padd_def)

theorem callback_outcomes_witness:
  "read_fault (callback (\<lambda>_. []) \<lparr>caplen = 36, pkt_len = 36\<rparr> (ipv4_frame 17 [1, 2]) start_world) \<or>
    (\<exists>s w'. callback (\<lambda>_. []) \<lparr>caplen = 36, pkt_len = 36\<rparr> (ipv4_frame 17 [1, 2]) start_world = Inr ((), w') \<and>
       (effect 0 s start_world w' \<or> effect 1 s start_world w' \<or> effect 4 s start_world w'))"
  by (rule callback_outcomes) (simp_all add: length_ipv4_frame)

text \<open>
  C7: a TCP packet whose headers fit: \<^verbatim>\<open>callback\<close> prints the header, the sizes and, of a payload of
  \<open>k\<close> bytes, the \<open>k\<close> bytes at offset \<open>k\<close> of the packet (\<^verbatim>\<open>packet + payloadLength\<close>); it succeeds exactly
  when those are inside the packet, that is when the payload is at most half of it, and leaves one
  block.
\<close>

theorem callback_tcp:
  assumes "allocs_ok 1 w" and "caplen hdr = of_nat (length packet)" and "length packet < 2147483648"
    and "packet ! 23 = 6" and "ip_length packet = Some n"
    and "20 \<le> data_offset (padd packet (14 + n))"
    and "14 + n + data_offset (padd packet (14 + n)) \<le> length packet"
  shows "\<exists>h. tcp_fields (padd packet (14 + n)) = Inr h \<and>
    callback showp hdr packet w =
      (if 2 * (length packet - (14 + n + data_offset (padd packet (14 + n)))) \<le> length packet
       then Inr ((), grown 1 (tcp_packet_text showp (14 + n) (data_offset (padd packet (14 + n))) h packet) w)
       else Inl OutOfBounds)"
proof -
  have "20 \<le> length (padd packet (14 + n))" "34 \<le> length packet" using assms(6,7) by simp_all
  then obtain h where h: "tcp_fields (padd packet (14 + n)) = Inr h"
    using tcp.dec_succeeds_iff by blast
  have "callback showp hdr packet w = processTcpPacket showp 14 n hdr packet w"
    using assms(4,5) \<open>34 \<le> length packet\<close> by (simp add: callback_run)
  with h processTcpPacket_run [OF assms(1-3,6,7) h] show ?thesis by simp
qed

text \<open>A TCP header of 20 bytes without flags.\<close>

definition plain_tcp :: "byte list" where
  "plain_tcp = [0x01, 0xBB, 0x90, 0x00] @ replicate 8 0 @ [0x50, 0x10] @ replicate 6 0"

lemma plain_tcp_byte_12: "plain_tcp ! 12 = 0x50"
  by (simp add: plain_tcp_def nth_append)

lemma plain_tcp_frame:
  "length plain_tcp = 20" "data_offset (plain_tcp @ q) = 20"
  by (simp_all add: plain_tcp_def data_offset_def nth_append)

theorem callback_tcp_witness:
  "\<exists>h. tcp_fields (padd (ipv4_frame 6 (plain_tcp @ [72, 105])) (14 + 20)) = Inr h \<and>
    callback (\<lambda>_. ''0x0'') \<lparr>caplen = 56, pkt_len = 56\<rparr> (ipv4_frame 6 (plain_tcp @ [72, 105])) start_world =
      Inr ((), grown 1 (tcp_packet_text (\<lambda>_. ''0x0'') 34 20 h (ipv4_frame 6 (plain_tcp @ [72, 105]))) start_world)"
  using callback_tcp [of start_world "\<lparr>caplen = 56, pkt_len = 56\<rparr>" "ipv4_frame 6 (plain_tcp @ [72, 105])" 20
      "\<lambda>_. ''0x0''"]
  by (simp add: ample_allocs_ok length_ipv4_frame ipv4_frame_fields plain_tcp_frame)

text \<open>
  C27: a TCP packet, with IP and TCP headers of any size and contents that fit, whose payload is longer
  than its headers is read past its end; and a capture to which libpcap hands such a packet, wherever
  among the others, never gets to its end, with enough memory or without.
\<close>

theorem callback_tcp_over_read:
  assumes "caplen hdr = of_nat (length packet)" and "length packet < 2147483648"
    and "packet ! 23 = 6" and "ip_length packet = Some n"
    and "20 \<le> data_offset (padd packet (14 + n))"
    and "2 * (14 + n + data_offset (padd packet (14 + n))) < length packet"
  shows "(allocs_ok 1 w \<longrightarrow> callback showp hdr packet w = Inl OutOfBounds) \<and>
    ((hdr, packet) \<in> set (pcap_loop lib descr fp k) \<longrightarrow> (\<exists>f. capture lib showp descr fp k w = Inl f))"
proof -
  let ?h = "14 + n + data_offset (padd packet (14 + n))"
  have fit: "?h \<le> length packet" and long: "34 \<le> length packet" and over: "\<not> 2 * (length packet - ?h) \<le> length packet"
    using assms(5,6) by auto
  have run: "callback showp hdr packet v = processTcpPacket showp 14 n hdr packet v" for v :: "'a world_scheme"
    using assms(3,4) long by (simp add: callback_run)
  obtain h where h: "tcp_fields (padd packet (14 + n)) = Inr h"
    using tcp.dec_succeeds_iff [of "padd packet (14 + n)"] assms(5) fit by auto
  have packet: "callback showp hdr packet v = Inl OutOfBounds" if "allocs_ok 1 v" for v :: "'a world_scheme"
    using processTcpPacket_run [OF that assms(1,2,5) fit h] over by (simp add: run)
  have "\<exists>f. (\<lambda>(pkthdr, p). callback showp pkthdr p) (hdr, packet) v = Inl f" for v :: "'a world_scheme"
    using packet [of v] processTcpPacket_no_memory [OF _ assms(5) fit, of v] run [of v]
    by (cases "allocs_ok 1 v") auto
  then have "\<exists>f. capture lib showp descr fp k w = Inl f" if "(hdr, packet) \<in> set (pcap_loop lib descr fp k)"
    using for_each_faults [OF that, of "\<lambda>(pkthdr, p). callback showp pkthdr p" w]
    by (auto simp: capture_def pbind_fault)
  with packet show ?thesis by blast
qed

theorem callback_tcp_over_read_witness:
  "callback (\<lambda>_. []) \<lparr>caplen = 109, pkt_len = 109\<rparr> (ipv4_frame 6 (plain_tcp @ replicate 55 0)) start_world
     = Inl OutOfBounds \<and>
   (\<exists>f. capture (demo_lib\<lparr>pcap_loop := \<lambda>_ _ _. [(\<lparr>caplen = 42, pkt_len = 42\<rparr>, demo_packet),
       (\<lparr>caplen = 109, pkt_len = 109\<rparr>, ipv4_frame 6 (plain_tcp @ replicate 55 0))]\<rparr>) (\<lambda>_. []) () None 2 start_world = Inl f)"
proof -
  let ?p = "ipv4_frame 6 (plain_tcp @ replicate 55 (0 :: byte))"
  have "length ?p = 109" by (simp add: length_ipv4_frame plain_tcp_frame)
  moreover have "data_offset (padd ?p (14 + 20)) = 20" by (simp add: ipv4_frame_fields plain_tcp_frame)
  ultimately show ?thesis
    using callback_tcp_over_read [of "\<lparr>caplen = 109, pkt_len = 109\<rparr>" ?p 20 start_world "\<lambda>_. []"
        "demo_lib\<lparr>pcap_loop := \<lambda>_ _ _. [(\<lparr>caplen = 42, pkt_len = 42\<rparr>, demo_packet), (\<lparr>caplen = 109, pkt_len = 109\<rparr>, ?p)]\<rparr>"
        "()" None 2]
    by (simp add: ipv4_frame_fields ample_allocs_ok)
qed

text \<open>
  C6: a UDP datagram to port 53 that holds a DNS message with an ordinary question: \<^verbatim>\<open>callback\<close>
  prints the DNS header and the question with its name in dotted form, its type and its class, and
  leaks four blocks (the two headers, the question and the name).
\<close>

theorem callback_dns:
  assumes "ample w" and "length packet < 65536" and "packet ! 23 = 17" and "ip_length packet = Some n"
    and "padd packet (14 + n) = encode_fields [16, 16, 16, 16] [sp, 53, l, c]
      @ hb @ enc_name ls @ [t1, t0, c1, c0] @ rest"
    and "sp < 65536" and "l < 65536" and "c < 65536" and "length hb = 12"
    and "ls \<noteq> []" and "\<forall>l \<in> set ls. valid_label l \<and> 0 \<notin> set l"
  shows "\<exists>h w'. dns_fields hb = Inr h \<and> callback showp hdr packet w = Inr ((), w') \<and>
    effect 4 (''DNS Query'' @ nl @ dns_text h @ (if qr h = 1 then ''DNS Response'' else []) @
      question_text (dotted ls) (ucast (be2 t1 t0)) (ucast (be2 c1 c0))) w w'"
proof -
  let ?u = "encode_fields [16, 16, 16, 16] [sp, 53, l, c]"
  let ?d = "hb @ enc_name ls @ [t1, t0, c1, c0] @ rest"
  let ?w = "grown 1 (''DNS Query'' @ nl) w"
  have fit: "fits udp_layout [sp, 53, l, c]" using assms(6-8) by (simp add: udp_layout_def)
  then have ulen: "length ?u = 8"
    using length_encode_fields [OF fit] by (simp add: udp_layout_def)
  obtain u where u: "udp_fields (padd packet (14 + n)) = Inr u" "udp_vals u = [sp, 53, l, c]"
    using udp.dec_encode [OF fit, of ?d] unfolding assms(5) udp_layout_def by auto
  then have port: "udp_dstPort u = 53" by (simp add: udp_vals_def unat_eq_nat_uint [symmetric] word_unat_eq_iff)
  obtain h where h: "dns_fields hb = Inr h" using dns.dec_succeeds_iff [of hb] assms(9) by auto
  have hd: "dns_fields ?d = Inr h" using dns.dec_prefix [of ?d hb] assms(9) h by simp
  have len: "length ?d + 22 + n \<le> length packet"
    using arg_cong [OF assms(5), of length] ulen assms(9) by simp
  have d: "padd packet (14 + n + 8) = ?d"
    using arg_cong [OF assms(5), of "\<lambda>p. padd p 8"] ulen by (simp add: padd_def)
  have q: "padd ?d 12 = enc_name ls @ [t1, t0, c1, c0] @ rest" using assms(9) by (simp add: padd_def)
  have lab: "labels (padd ?d 12) = Some ls" unfolding q using assms(11) by (intro labels_enc_name) blast
  have tw: "takeWhile (\<lambda>c. c \<noteq> 0) (dotted ls) = dotted ls"
    using assms(11) by (intro takeWhile_nonzero dotted_no_zero) blast
  have qe: "question_end ls = length (enc_name ls)"
    using length_enc_name [OF assms(10)] unfolding question_end_def tw by simp
  have msg: "dns_message_text h ls ?d = dns_text h @ (if qr h = 1 then ''DNS Response'' else []) @
      question_text (dotted ls) (ucast (be2 t1 t0)) (ucast (be2 c1 c0))"
    unfolding dns_message_text_def Let_def q tw qe by (simp add: nth_append)
  have amp: "ample ?w" and small: "length ?d < 536870912" and qs: "question_end ls < 65536"
    and fitq: "12 + question_end ls + 4 \<le> length ?d"
    using assms(1,2,9) len by (simp_all add: qe)
  obtain w' where w': "processDNS ?d ?w = Inr ((), w')" "effect 3 (dns_message_text h ls ?d) ?w w'"
    using processDNS_run [OF amp hd small lab qs] fitq by auto
  have "callback showp hdr packet w = processDNS ?d ?w"
    using assms(3,4) len u(1) port d ample_allocs_ok [OF assms(1)]
    by (simp add: callback_run processUdpPacket_run assms(9))
  then show ?thesis
    using h w' effect_trans [OF effect_grown [of 1 "''DNS Query'' @ nl" w] w'(2)] unfolding msg by auto
qed

theorem callback_dns_witness:
  "\<exists>h w'. dns_fields (replicate 12 0) = Inr h \<and>
    callback (\<lambda>_. []) \<lparr>caplen = 62, pkt_len = 62\<rparr> (ipv4_frame 17 (encode_fields [16, 16, 16, 16] [5353, 53, 30, 0] @
      replicate 12 0 @ enc_name [[118, 110]] @ [0, 1, 0, 1] @ [])) start_world = Inr ((), w') \<and>
    effect 4 (''DNS Query'' @ nl @ dns_text h @ (if qr h = 1 then ''DNS Response'' else []) @
      question_text (dotted [[118, 110]]) (ucast (be2 0 1)) (ucast (be2 0 1))) start_world w'"
  by (rule callback_dns [where n = 20 and sp = 5353 and l = 30 and c = 0 and rest = "[]"])
    (simp_all add: length_ipv4_frame ipv4_frame_fields valid_label_def length_encode_fields)

end
